theory Spec2Isabelle
  imports Complex_Main
begin

section \<open>The image cycle controller of \<open>src/extension.ts\<close>\<close>

text \<open>
  The extension keeps one module-level variable, \<open>intervalId\<close>, and talks to its host
  through four capabilities: the key-value store \<open>context.globalState\<close>, the timers
  \<open>setInterval\<close>/\<open>clearInterval\<close>, webview panels and notifications. The model threads one
  record through every function: the extension's variable, the part of the host the
  extension can change (the stored value of the key \<open>imageCycleSettings\<close>, the table of
  running interval timers, the supply of timer handles) and the sequence of host calls made
  so far, in program order.

  Modelling decisions, each where the source leaves the language of HOL:
  \<^item> \<open>intervalMinutes\<close> is a JavaScript number; the settings form posts \<open>parseInt\<close> of its
    input field and the built-in value is 4, so the field is an \<open>int\<close>.
  \<^item> \<open>Math.random()\<close> is an input of the model: the function that draws takes the drawn
    number as an argument. A JavaScript number is the \<open>real\<close> it denotes; the draw is a
    binary64 value in \<open>[0, 1)\<close>, which theorems that need it assume (\<open>jsDraw\<close>).
  \<^item> \<open>*\<close> on numbers is \<open>times64\<close>: the exact product rounded to the nearest binary64
    value, ties to the even significand. So \<open>randomIndex\<close> floors the product the code
    floors, which can be one more than the floor of the exact product. Overflow is not
    modelled: a draw below 1 times an array length stays below \<open>2^32\<close>.
  \<^item> The delay \<open>intervalMinutes * 60 * 1000\<close> is the exact integer product, which is what
    JavaScript computes as long as the product stays below \<open>2^53\<close> in absolute value
    (\<open>delay_exact\<close>).
  \<^item> An array read out of range is \<open>undefined\<close> in JavaScript: \<open>arrayIndex\<close> returns
    \<open>None\<close> there.
  \<^item> A timer handle is a fresh object for every call of \<open>setInterval\<close>: handles are natural
    numbers drawn from a counter. Any handle is truthy, \<open>undefined\<close> is \<open>None\<close>.
  \<^item> \<open>globalState.update\<close> replaces the stored value at once; the two markup templates are
    kept as the value they render (\<open>SettingsForm\<close>, \<open>FullScreenImage\<close>).
\<close>

subsection \<open>Data\<close>

record Settings =
  imageUrls :: "string list"
  intervalMinutes :: int

definition defaultImages :: "string list" where
  "defaultImages =
    [''https://i.imgur.com/lBsiH4u.png'',
     ''https://i.imgur.com/771nDEc.png'',
     ''https://i.imgur.com/oL0mqN5.png'',
     ''https://i.imgur.com/2hJcobD.png'',
     ''https://i.imgur.com/9BzZDag.png'',
     ''https://i.imgur.com/O4u6CXU.png'']"

text \<open>The object literal \<open>{ imageUrls: defaultImages, intervalMinutes: 4 }\<close>, written out
  three times in the source (lines 30, 45 and 168).\<close>

definition defaultSettings :: Settings where
  "defaultSettings = \<lparr>imageUrls = defaultImages, intervalMinutes = 4\<rparr>"

datatype severity = InformationMessage | WarningMessage | ErrorMessage

datatype content = SettingsForm Settings | FullScreenImage "string option"

text \<open>A call of a host capability: what the rest of the editor observes of the extension.\<close>

datatype call =
    RegisterCommand string
  | GlobalStateUpdate Settings
  | CreateWebviewPanel string string content
  | ShowMessage severity string
  | SetInterval nat "string list" int
  | ClearInterval nat

text \<open>A running interval timer: the list its callback closes over and the delay in
  milliseconds that was passed to \<open>setInterval\<close>.\<close>

record timer =
  callbackUrls :: "string list"
  delay :: int

record state =
  globalState :: "Settings option"
  intervalId :: "nat option"
  timers :: "(nat \<times> timer) list"
  nextHandle :: nat
  calls :: "call list"

text \<open>A fresh extension host process; \<open>stored\<close> is what earlier sessions left in the store.\<close>

definition initial :: "Settings option \<Rightarrow> state" where
  "initial stored =
    \<lparr>globalState = stored, intervalId = None, timers = [], nextHandle = 0, calls = []\<rparr>"

subsection \<open>Host capabilities\<close>

definition emit :: "call \<Rightarrow> state \<Rightarrow> state" where
  "emit c s = s\<lparr>calls := calls s @ [c]\<rparr>"

text \<open>\<open>context.globalState.get("imageCycleSettings", defaults)\<close>\<close>

definition getSettings :: "state \<Rightarrow> Settings" where
  "getSettings s = (case globalState s of None \<Rightarrow> defaultSettings | Some v \<Rightarrow> v)"

text \<open>\<open>context.globalState.update("imageCycleSettings", v)\<close>\<close>

definition updateSettings :: "Settings \<Rightarrow> state \<Rightarrow> state" where
  "updateSettings v s = emit (GlobalStateUpdate v) (s\<lparr>globalState := Some v\<rparr>)"

definition setInterval :: "string list \<Rightarrow> int \<Rightarrow> state \<Rightarrow> nat \<times> state" where
  "setInterval urls ms s =
    (nextHandle s,
     emit (SetInterval (nextHandle s) urls ms)
       (s\<lparr>timers := timers s @ [(nextHandle s, \<lparr>callbackUrls = urls, delay = ms\<rparr>)],
          nextHandle := Suc (nextHandle s)\<rparr>))"

definition clearInterval :: "nat \<Rightarrow> state \<Rightarrow> state" where
  "clearInterval h s =
    emit (ClearInterval h) (s\<lparr>timers := filter (\<lambda>e. fst e \<noteq> h) (timers s)\<rparr>)"

text \<open>\<open>xs[i]\<close> for a number \<open>i\<close> that is an integer.\<close>

definition arrayIndex :: "'a list \<Rightarrow> int \<Rightarrow> 'a option" where
  "arrayIndex xs i = (if 0 \<le> i \<and> i < int (length xs) then Some (xs ! nat i) else None)"

subsection \<open>JavaScript numbers\<close>

text \<open>The number of binary digits of a natural number.\<close>

fun bits :: "nat \<Rightarrow> nat" where
  "bits n = (if n = 0 then 0 else Suc (bits (n div 2)))"

declare bits.simps [simp del]

text \<open>The binary exponent of a positive number: \<open>2 ^ ilog2 x \<le> x < 2 ^ (ilog2 x + 1)\<close>.\<close>

definition ilog2 :: "real \<Rightarrow> int" where
  "ilog2 x =
    (if 1 \<le> x then int (bits (nat \<lfloor>x\<rfloor>)) - 1
     else - int (bits (nat (\<lceil>1 / x\<rceil> - 1))))"

text \<open>The nearest integer, the even one of the two when \<open>q\<close> lies half way.\<close>

definition roundEven :: "real \<Rightarrow> int" where
  "roundEven q =
    (let f = \<lfloor>q\<rfloor>; d = q - of_int f
     in if d < 1 / 2 then f
        else if 1 / 2 < d then f + 1
        else if even f then f else f + 1)"

text \<open>Rounding to binary64, round-to-nearest with ties to even: 53 significant bits, and
  never a unit in the last place below \<open>2 ^ - 1074\<close>.\<close>

definition round64 :: "real \<Rightarrow> real" where
  "round64 x =
    (if x = 0 then 0
     else (let e = max (ilog2 \<bar>x\<bar> - 52) (- 1074)
           in of_int (roundEven (x / 2 powi e)) * 2 powi e))"

text \<open>\<open>a * b\<close> on two numbers.\<close>

definition times64 :: "real \<Rightarrow> real \<Rightarrow> real" where
  "times64 a b = round64 (a * b)"

subsection \<open>The extension\<close>

text \<open>\<open>Math.floor(Math.random() * imageUrls.length)\<close>, the draw being \<open>r\<close>.\<close>

definition randomIndex :: "real \<Rightarrow> string list \<Rightarrow> int" where
  "randomIndex r urls = \<lfloor>times64 r (real (length urls))\<rfloor>"

definition showRandomImage :: "real \<Rightarrow> string list \<Rightarrow> state \<Rightarrow> state" where
  "showRandomImage r urls s =
    (let randomUrl = arrayIndex urls (randomIndex r urls)
     in emit (CreateWebviewPanel ''imageViewer'' ''Full Screen Image''
                (FullScreenImage randomUrl)) s)"

definition startImageCycle :: "real \<Rightarrow> state \<Rightarrow> state" where
  "startImageCycle r s =
    (let settings = getSettings s in
     if length (imageUrls settings) = 0 then
       emit (ShowMessage ErrorMessage ''Please set image URLs in the settings first'') s
     else if intervalId s \<noteq> None then
       emit (ShowMessage WarningMessage ''Image cycle is already running'') s
     else
       (let (h, s1) = setInterval (imageUrls settings)
                        (intervalMinutes settings * 60 * 1000) s;
            s2 = s1\<lparr>intervalId := Some h\<rparr>;
            s3 = showRandomImage r (imageUrls settings) s2
        in emit (ShowMessage InformationMessage ''Started image cycle'') s3))"

definition stopImageCycle :: "state \<Rightarrow> state" where
  "stopImageCycle s =
    (case intervalId s of
       Some h \<Rightarrow>
         emit (ShowMessage InformationMessage ''Stopped image cycle'')
           ((clearInterval h s)\<lparr>intervalId := None\<rparr>)
     | None \<Rightarrow> emit (ShowMessage WarningMessage ''Image cycle is not running'') s)"

definition deactivate :: "state \<Rightarrow> state" where
  "deactivate s = (case intervalId s of Some h \<Rightarrow> clearInterval h s | None \<Rightarrow> s)"

definition activate :: "state \<Rightarrow> state" where
  "activate s =
    (let s1 = emit (RegisterCommand ''extension.openSettings'') s in
     case globalState s1 of
       None \<Rightarrow> updateSettings \<lparr>imageUrls = defaultImages, intervalMinutes = 4\<rparr> s1
     | Some currentSettings \<Rightarrow> s1)"

text \<open>The messages the settings surface posts; \<open>OtherCommand\<close> is any message whose
  \<open>command\<close> field matches no case of the \<open>switch\<close>.\<close>

datatype message = SaveSettings Settings | StartCycle | StopCycle | OtherCommand string

text \<open>The handler passed to \<open>panel.webview.onDidReceiveMessage\<close>.\<close>

fun onDidReceiveMessage :: "message \<Rightarrow> real \<Rightarrow> state \<Rightarrow> state" where
  "onDidReceiveMessage (SaveSettings v) r s =
     emit (ShowMessage InformationMessage ''Settings saved successfully'') (updateSettings v s)"
| "onDidReceiveMessage StartCycle r s = startImageCycle r s"
| "onDidReceiveMessage StopCycle r s = stopImageCycle s"
| "onDidReceiveMessage (OtherCommand c) r s = s"

definition openSettings :: "state \<Rightarrow> state" where
  "openSettings s =
    emit (CreateWebviewPanel ''imageSettings'' ''Image Cycle Settings''
            (SettingsForm (getSettings s))) s"

text \<open>The host fires the interval timer \<open>h\<close>: if it is still running, its callback
  \<open>() => showRandomImage(settings.imageUrls)\<close> runs on the list it closed over.\<close>

definition fire :: "nat \<Rightarrow> real \<Rightarrow> state \<Rightarrow> state" where
  "fire h r s =
    (case map_of (timers s) h of
       None \<Rightarrow> s
     | Some t \<Rightarrow> showRandomImage r (callbackUrls t) s)"

subsection \<open>Runs\<close>

text \<open>Everything that can happen to the controller, each with the number \<open>Math.random()\<close>
  would return if the step draws one.\<close>

datatype input = Activate | OpenSettings | Receive message | Fire nat | Deactivate

fun step :: "input \<times> real \<Rightarrow> state \<Rightarrow> state" where
  "step (Activate, r) s = activate s"
| "step (OpenSettings, r) s = openSettings s"
| "step (Receive m, r) s = onDidReceiveMessage m r s"
| "step (Fire h, r) s = fire h r s"
| "step (Deactivate, r) s = deactivate s"

definition run :: "(input \<times> real) list \<Rightarrow> state \<Rightarrow> state" where
  "run ins s = fold step ins s"

subsection \<open>Vocabulary of the properties\<close>

text \<open>The invariant of the cycle state: the host runs no interval timer of the extension, or
  exactly one, and that one is the timer \<open>intervalId\<close> refers to.\<close>

definition oneTimer :: "state \<Rightarrow> bool" where
  "oneTimer s =
    (case timers s of
       [] \<Rightarrow> True
     | [e] \<Rightarrow> intervalId s = Some (fst e)
     | _ \<Rightarrow> False)"

text \<open>The images put on screen so far, oldest first; \<open>None\<close> is a panel rendering
  \<open>undefined\<close>.\<close>

fun shownImage :: "call \<Rightarrow> string option list" where
  "shownImage (CreateWebviewPanel v t (FullScreenImage u)) = [u]"
| "shownImage c = []"

definition images :: "state \<Rightarrow> string option list" where
  "images s = concat (map shownImage (calls s))"

text \<open>The host calls made on the way from \<open>s\<close> to \<open>s'\<close>.\<close>

definition newCalls :: "state \<Rightarrow> state \<Rightarrow> call list" where
  "newCalls s s' = drop (length (calls s)) (calls s')"

fun firstIndex :: "('a \<Rightarrow> bool) \<Rightarrow> 'a list \<Rightarrow> nat option" where
  "firstIndex P [] = None"
| "firstIndex P (x # xs) = (if P x then Some 0 else map_option Suc (firstIndex P xs))"

text \<open>Both kinds of call occur, and the first \<open>P\<close> comes before the first \<open>Q\<close>.\<close>

definition precedes :: "('a \<Rightarrow> bool) \<Rightarrow> ('a \<Rightarrow> bool) \<Rightarrow> 'a list \<Rightarrow> bool" where
  "precedes P Q xs =
    (case firstIndex P xs of
       None \<Rightarrow> False
     | Some i \<Rightarrow> (case firstIndex Q xs of None \<Rightarrow> False | Some j \<Rightarrow> i < j))"

fun isSchedule :: "call \<Rightarrow> bool" where
  "isSchedule (SetInterval h urls ms) = True"
| "isSchedule c = False"

fun isDisplay :: "call \<Rightarrow> bool" where
  "isDisplay (CreateWebviewPanel v t (FullScreenImage u)) = True"
| "isDisplay c = False"

fun isSave :: "input \<Rightarrow> bool" where
  "isSave (Receive (SaveSettings v)) = True"
| "isSave i = False"

text \<open>A cycle is active: the handle is set and the host runs exactly that timer.\<close>

definition cycleActive :: "state \<Rightarrow> bool" where
  "cycleActive s =
    (case intervalId s of
       None \<Rightarrow> False
     | Some h \<Rightarrow> (case timers s of [e] \<Rightarrow> fst e = h | _ \<Rightarrow> False))"

text \<open>What the host can hand to the extension: an array has fewer than \<open>2^32\<close> elements,
  and \<open>Math.random()\<close> returns a binary64 value in \<open>[0, 1)\<close> (\<open>binary64\<close> is defined
  below).\<close>

definition jsArray :: "'a list \<Rightarrow> bool" where
  "jsArray xs \<longleftrightarrow> length xs < 2 ^ 32"

fun jsInput :: "input \<Rightarrow> bool" where
  "jsInput (Receive (SaveSettings v)) = jsArray (imageUrls v)"
| "jsInput i = True"

text \<open>Every running timer closes over a non-empty list.\<close>

definition nonEmptyLists :: "state \<Rightarrow> bool" where
  "nonEmptyLists s \<longleftrightarrow> (\<forall>e\<in>set (timers s). callbackUrls (snd e) \<noteq> [])"

text \<open>Every list a timer closes over or the store holds is an array, and no panel so far
  renders \<open>undefined\<close>.\<close>

definition wellStarted :: "state \<Rightarrow> bool" where
  "wellStarted s \<longleftrightarrow>
     nonEmptyLists s
     \<and> (\<forall>e\<in>set (timers s). jsArray (callbackUrls (snd e)))
     \<and> (\<forall>v. globalState s = Some v \<longrightarrow> jsArray (imageUrls v))
     \<and> None \<notin> set (images s)"

text \<open>The handle and the host agree: \<open>intervalId\<close> is \<open>undefined\<close> and no timer runs, or it
  holds the handle of the one running timer.\<close>

definition coherent :: "state \<Rightarrow> bool" where
  "coherent s = (if intervalId s = None then timers s = [] else cycleActive s)"

text \<open>The numbers of JavaScript as IEEE 754 states them: the finite values of binary64, a
  significand below \<open>2^53\<close> and an exponent between \<open>-1074\<close> and \<open>971\<close>; and what a correctly
  rounded operation may return for the exact result \<open>x\<close>, a representable value nearest to
  it. \<open>round64\<close> is measured against this (\<open>nearest64_round64\<close>).\<close>

definition binary64 :: "real \<Rightarrow> bool" where
  "binary64 x \<longleftrightarrow>
     (\<exists>m e. x = real_of_int m * 2 powi e \<and> \<bar>m\<bar> < 2 ^ 53 \<and> - 1074 \<le> e \<and> e \<le> 971)"

definition nearest64 :: "real \<Rightarrow> real \<Rightarrow> bool" where
  "nearest64 x p \<longleftrightarrow> binary64 p \<and> (\<forall>d. binary64 d \<longrightarrow> \<bar>p - x\<bar> \<le> \<bar>d - x\<bar>)"

definition jsDraw :: "real \<Rightarrow> bool" where
  "jsDraw r \<longleftrightarrow> binary64 r \<and> 0 \<le> r \<and> r < 1"

subsection \<open>Concrete runs and states\<close>

definition twoStarts :: "(input \<times> real) list" where
  "twoStarts = [(Activate, 0), (Receive StartCycle, 1/2), (Receive StartCycle, 1/4)]"

definition emptied :: state where
  "emptied = initial (Some \<lparr>imageUrls = [], intervalMinutes = 7\<rparr>)"

definition ab7 :: Settings where
  "ab7 = \<lparr>imageUrls = [''a'', ''b''], intervalMinutes = 7\<rparr>"

definition cd1 :: Settings where
  "cd1 = \<lparr>imageUrls = [''c'', ''d'', ''e''], intervalMinutes = 1\<rparr>"

definition running :: state where
  "running = startImageCycle (1/2) (initial (Some \<lparr>imageUrls = [''a'', ''b''], intervalMinutes = 7\<rparr>))"

definition afterSave :: "(input \<times> real) list" where
  "afterSave = [(Receive StartCycle, 1/2), (Activate, 0), (OpenSettings, 0), (Fire 0, 1/4), (Receive StopCycle, 0), (Deactivate, 0)]"

definition startStop :: "(input \<times> real) list" where
  "startStop = [(Activate, 0), (Receive StartCycle, 1/2), (Fire 0, 1/4), (Receive StopCycle, 0)]"

definition mixedRun :: "(input \<times> real) list" where
  "mixedRun = [(Activate, 0), (Receive StartCycle, 3/4), (Fire 0, 1/2),
               (Receive (SaveSettings \<lparr>imageUrls = [], intervalMinutes = 1\<rparr>), 0),
               (Fire 0, 7/8), (Receive StartCycle, 1/4)]"

definition abc :: "string list" where
  "abc = [''a'', ''b'', ''c'']"

section \<open>JavaScript numbers\<close>

subsection \<open>Evaluating the index\<close>

lemmas number_simps = times64_def round64_def ilog2_def roundEven_def bits.simps Let_def

lemma randomIndex_zero: "randomIndex 0 urls = 0"
  by (simp add: randomIndex_def times64_def round64_def)

lemma randomIndex_examples:
  "randomIndex (1/2) [''a'', ''b''] = 1"
  "randomIndex (1/4) [''a'', ''b''] = 0"
  "randomIndex (3/4) [''a'', ''b''] = 1"
  "randomIndex (1/8) [''a'', ''b''] = 0"
  "randomIndex (3/4) abc = 2"
  "randomIndex (1/4) abc = 0"
  "randomIndex (1/2) abc = 1"
  "randomIndex (3/4) defaultImages = 4"
  "randomIndex (1/2) defaultImages = 3"
  "randomIndex (7/8) defaultImages = 5"
  by (simp_all add: randomIndex_def number_simps abc_def defaultImages_def)

text \<open>
  Where rounding matters: the binary64 value nearest to one third is
  \<open>6004799503160661 / 2^54\<close>. Its exact product with 3 is \<open>1 - 1 / 2^54\<close>, half way between
  two representable values, and rounds to 1. The code reads the second element, where the
  floor of the exact product would name the first.
\<close>

lemma randomIndex_third:
  "randomIndex (6004799503160661 / 2 ^ 54) abc = 1"
  "\<lfloor>(6004799503160661 / 2 ^ 54 :: real) * real (length abc)\<rfloor> = 0"
  "arrayIndex abc (randomIndex (6004799503160661 / 2 ^ 54) abc) = Some ''b''"
  by (simp_all add: randomIndex_def number_simps abc_def arrayIndex_def)

subsection \<open>The exponent and the nearest integer\<close>

lemma bits_less: "n < 2 ^ bits n"
proof (induction n rule: bits.induct)
  case (1 n)
  show ?case
  proof (cases "n = 0")
    case True
    then show ?thesis by (simp add: bits.simps)
  next
    case False
    then have "n div 2 < 2 ^ bits (n div 2)"
      by (rule "1.IH")
    then have "n < 2 * 2 ^ bits (n div 2)"
      by linarith
    with False show ?thesis
      by (simp add: bits.simps [of n])
  qed
qed

lemma bits_ge: "0 < n \<Longrightarrow> 2 ^ bits n \<le> 2 * n"
proof (induction n rule: bits.induct)
  case (1 n)
  then have n: "n \<noteq> 0" by simp
  show ?case
  proof (cases "n div 2 = 0")
    case True
    with n show ?thesis
      by (simp add: bits.simps [of n] bits.simps [of 0])
  next
    case False
    then have "2 ^ bits (n div 2) \<le> 2 * (n div 2)"
      using "1.IH" n by simp
    then have "2 * 2 ^ bits (n div 2) \<le> 2 * n"
      by linarith
    with n show ?thesis
      by (simp add: bits.simps [of n])
  qed
qed

lemma bits_pos: "0 < n \<Longrightarrow> 0 < bits n"
  by (simp add: bits.simps [of n])

lemma ilog2_bounds:
  assumes "0 < x"
  shows "2 powi ilog2 x \<le> x" and "x < 2 powi (ilog2 x + 1)"
proof -
  have "2 powi ilog2 x \<le> x \<and> x < 2 powi (ilog2 x + 1)"
  proof (cases "1 \<le> x")
    case True
    define N where "N = nat \<lfloor>x\<rfloor>"
    have N0: "0 < N"
      using True by (simp add: N_def)
    have Nx: "real N \<le> x" "x < real N + 1"
      using True by (simp_all add: N_def)
    define b where "b = bits N"
    have b0: "0 < b"
      using N0 by (simp add: b_def bits_pos)
    have i: "ilog2 x = int b - 1"
      using True by (simp add: ilog2_def N_def b_def)
    have p1: "(2::real) powi (int b - 1) = 2 ^ (b - 1)"
      using b0 by (simp add: power_int_def nat_diff_distrib')
    have p2: "(2::real) powi (int b - 1 + 1) = 2 ^ b"
      by simp
    have "2 * 2 ^ (b - 1) = (2::nat) ^ b"
      using b0 by (cases b) simp_all
    with bits_ge [OF N0] have "(2::nat) ^ (b - 1) \<le> N"
      by (simp add: b_def)
    then have "real (2 ^ (b - 1)) \<le> real N"
      by (simp only: of_nat_le_iff)
    then have "(2::real) ^ (b - 1) \<le> real N"
      by simp
    with Nx(1) have l: "(2::real) ^ (b - 1) \<le> x"
      by linarith
    from bits_less [of N] have "N + 1 \<le> 2 ^ b"
      by (simp add: b_def)
    then have "real (N + 1) \<le> real (2 ^ b)"
      by (simp only: of_nat_le_iff)
    then have "real N + 1 \<le> 2 ^ b"
      by simp
    with Nx(2) have h: "x < 2 ^ b"
      by linarith
    from l h show ?thesis
      unfolding i p1 p2 by simp
  next
    case False
    define y where "y = 1 / x"
    have y1: "1 < y"
      using assms False by (simp add: y_def)
    define M where "M = nat (\<lceil>y\<rceil> - 1)"
    have c2: "2 \<le> \<lceil>y\<rceil>"
      using y1 by linarith
    have My: "real M < y" "y \<le> real M + 1"
      using c2 by (simp_all add: M_def) linarith+
    have M0: "0 < M"
      using c2 by (simp add: M_def)
    define k where "k = bits M"
    have k0: "0 < k"
      using M0 by (simp add: k_def bits_pos)
    have i: "ilog2 x = - int k"
      using False by (simp add: ilog2_def M_def k_def y_def)
    from bits_less [of M] have "M + 1 \<le> 2 ^ k"
      by (simp add: k_def)
    then have "real (M + 1) \<le> real (2 ^ k)"
      by (simp only: of_nat_le_iff)
    then have "real M + 1 \<le> 2 ^ k"
      by simp
    with My(2) have "y \<le> 2 ^ k"
      by linarith
    then have "1 \<le> x * 2 ^ k"
      using assms by (simp add: y_def field_simps)
    then have l: "1 / 2 ^ k \<le> x"
      by (simp add: field_simps)
    have "2 * 2 ^ (k - 1) = (2::nat) ^ k"
      using k0 by (cases k) simp_all
    with bits_ge [OF M0] have "(2::nat) ^ (k - 1) \<le> M"
      by (simp add: k_def)
    then have "real (2 ^ (k - 1)) \<le> real M"
      by (simp only: of_nat_le_iff)
    then have "(2::real) ^ (k - 1) \<le> real M"
      by simp
    with My(1) have "2 ^ (k - 1) < y"
      by linarith
    then have "x * 2 ^ (k - 1) < 1"
      using assms by (simp add: y_def field_simps)
    then have h: "x < 1 / 2 ^ (k - 1)"
      by (simp add: field_simps)
    have p1: "(2::real) powi (- int k) = 1 / 2 ^ k"
      by (simp add: power_int_minus field_simps)
    have j: "- int k + 1 = - int (k - 1)"
      using k0 by simp
    have p2: "(2::real) powi (- int k + 1) = 1 / 2 ^ (k - 1)"
      unfolding j by (simp only: power_int_minus power_int_of_nat inverse_eq_divide)
    from l h show ?thesis
      unfolding i p1 p2 by simp
  qed
  then show "2 powi ilog2 x \<le> x" and "x < 2 powi (ilog2 x + 1)"
    by simp_all
qed

lemma roundEven_floor: "\<lfloor>q\<rfloor> \<le> roundEven q" "roundEven q \<le> \<lfloor>q\<rfloor> + 1"
  by (simp_all add: roundEven_def Let_def)

lemma roundEven_half: "\<bar>of_int (roundEven q) - q\<bar> \<le> 1 / 2"
proof -
  have "of_int \<lfloor>q\<rfloor> \<le> q" "q < of_int \<lfloor>q\<rfloor> + 1"
    by linarith+
  then show ?thesis
    by (auto simp: roundEven_def Let_def)
qed

lemma roundEven_nearest: "\<bar>of_int (roundEven q) - q\<bar> \<le> \<bar>of_int k - q\<bar>"
proof (cases "k = roundEven q")
  case True
  then show ?thesis by simp
next
  case False
  then have "1 \<le> \<bar>k - roundEven q\<bar>"
    by linarith
  then have "real_of_int 1 \<le> real_of_int \<bar>k - roundEven q\<bar>"
    by (simp only: of_int_le_iff)
  then have "1 \<le> \<bar>real_of_int k - real_of_int (roundEven q)\<bar>"
    by simp
  with roundEven_half [of q] show ?thesis
    by linarith
qed

subsection \<open>Representable values\<close>

lemma binary64_zero: "binary64 0"
  unfolding binary64_def by (rule exI [of _ 0], rule exI [of _ 0]) simp

lemma powi_shift: "k \<le> j \<Longrightarrow> (2::real) powi (int k - int j) = 2 ^ k / 2 ^ j"
  by (simp add: power_int_diff)

lemma draw_below_one:
  assumes "binary64 r" and "r < 1"
  shows "r \<le> 1 - 1 / 2 ^ 53"
proof -
  from assms(1) obtain m e where r: "r = real_of_int m * 2 powi e" and m: "\<bar>m\<bar> < 2 ^ 53"
    unfolding binary64_def by blast
  show ?thesis
  proof (cases "e < - 53")
    case True
    then have "(2::real) powi e \<le> 2 powi (- 54)"
      by (intro power_int_increasing) simp_all
    then have p: "(2::real) powi e \<le> 1 / 2 ^ 54"
      by (simp add: power_int_minus field_simps)
    have "r \<le> \<bar>real_of_int m\<bar> * 2 powi e"
      unfolding r by (intro mult_right_mono) simp_all
    also have "\<dots> \<le> 2 ^ 53 * (1 / 2 ^ 54)"
    proof (rule mult_mono)
      from m have "real_of_int \<bar>m\<bar> \<le> real_of_int (2 ^ 53)"
        by (intro of_int_le_iff [THEN iffD2]) simp
      then show "\<bar>real_of_int m\<bar> \<le> 2 ^ 53" by simp
    qed (use p in simp_all)
    finally show ?thesis by simp
  next
    case False
    define j where "j = nat (e + 53)"
    from False have e: "e = int j - int 53"
      by (simp add: j_def)
    have pw: "(2::real) powi e * 2 ^ 53 = 2 ^ j"
      unfolding e by (simp add: power_int_diff)
    have "real_of_int (m * 2 ^ j) = r * 2 ^ 53"
      unfolding r using pw by (simp add: mult.assoc)
    also have "\<dots> < 1 * 2 ^ 53"
      using assms(2) by (intro mult_strict_right_mono) simp_all
    finally have "real_of_int (m * 2 ^ j) < real_of_int (2 ^ 53)"
      by simp
    then have "m * 2 ^ j < 2 ^ 53"
      by (simp only: of_int_less_iff)
    then have "m * 2 ^ j \<le> 2 ^ 53 - 1"
      by simp
    then have "real_of_int (m * 2 ^ j) \<le> real_of_int (2 ^ 53 - 1)"
      by (simp only: of_int_le_iff)
    then have "r * 2 ^ 53 \<le> 2 ^ 53 - 1"
      unfolding r using pw by (simp add: mult.assoc)
    then show ?thesis
      by (simp add: field_simps)
  qed
qed

lemma below_length:
  fixes n :: nat
  assumes k: "2 ^ k \<le> n" "n < 2 ^ (k + 1)" and n: "n < 2 ^ 53"
  shows "\<exists>d. binary64 d \<and> d < real n
             \<and> (n = 2 ^ k \<longrightarrow> real n - d \<le> real n / 2 ^ 53)
             \<and> (n \<noteq> 2 ^ k \<longrightarrow> real n - d = 2 ^ k / 2 ^ 52)"
proof -
  have k52: "k \<le> 52"
  proof (rule ccontr)
    assume "\<not> k \<le> 52"
    then have "53 \<le> k" by simp
    then have "(2::nat) ^ 53 \<le> 2 ^ k"
      by (intro power_increasing) simp_all
    with k(1) n show False by simp
  qed
  show ?thesis
  proof (cases "n = 2 ^ k")
    case True
    let ?d = "real_of_int (2 ^ 53 - 1) * 2 powi (int k - int 53)"
    have b: "binary64 ?d"
      unfolding binary64_def
      by (rule exI [of _ "2 ^ 53 - 1"], rule exI [of _ "int k - int 53"]) (use k52 in simp)
    have sh: "(2::real) powi (int k - int 53) = 2 ^ k / 2 ^ 53"
      using k52 by (intro powi_shift) simp
    have v: "?d = real n - real n / 2 ^ 53"
      unfolding sh by (simp add: True field_simps)
    have "0 < real n"
      using True by simp
    then have "?d < real n"
      unfolding v by simp
    with b v True show ?thesis
      by (intro exI [of _ ?d]) simp
  next
    case False
    let ?m = "int n * 2 ^ (52 - k) - 1"
    let ?d = "real_of_int ?m * 2 powi (int k - int 52)"
    have "n * 2 ^ (52 - k) < 2 ^ (k + 1) * 2 ^ (52 - k)"
      using k(2) by simp
    also have "\<dots> = (2::nat) ^ 53"
      using k52 by (simp add: power_add [symmetric] del: power_Suc)
    finally have "int (n * 2 ^ (52 - k)) < int (2 ^ 53)"
      by (simp only: of_nat_less_iff)
    then have m1: "?m < 2 ^ 53"
      by simp
    have "0 < n"
      using k(1) by (cases n) simp_all
    then have "0 < int n * 2 ^ (52 - k)"
      by simp
    then have m0: "0 \<le> ?m"
      by simp
    have b: "binary64 ?d"
      unfolding binary64_def
      by (rule exI [of _ ?m], rule exI [of _ "int k - int 52"]) (use m0 m1 k52 in simp)
    have "(2::real) ^ (52 - k) * 2 ^ k = 2 ^ 52"
      using k52 by (simp add: power_add [symmetric])
    then have c: "(2::real) ^ (52 - k) * (2 ^ k / 2 ^ 52) = 1"
      by simp
    have sh: "(2::real) powi (int k - int 52) = 2 ^ k / 2 ^ 52"
      using k52 by (intro powi_shift) simp
    have "?d = (real n * 2 ^ (52 - k) - 1) * (2 ^ k / 2 ^ 52)"
      unfolding sh by simp
    also have "\<dots> = real n * (2 ^ (52 - k) * (2 ^ k / 2 ^ 52)) - 2 ^ k / 2 ^ 52"
      by (simp only: left_diff_distrib mult.assoc mult_1)
    finally have v: "?d = real n - 2 ^ k / 2 ^ 52"
      unfolding c by simp
    then have "?d < real n"
      by simp
    with b v False show ?thesis
      by (intro exI [of _ ?d]) simp
  qed
qed

lemma rounded_product_in_range:
  fixes n :: nat
  assumes r: "binary64 r" "0 \<le> r" "r < 1" and n: "0 < n" "n < 2 ^ 53"
    and p: "nearest64 (r * real n) p"
  shows "0 \<le> \<lfloor>p\<rfloor> \<and> \<lfloor>p\<rfloor> < int n"
proof -
  let ?x = "r * real n"
  have x0: "0 \<le> ?x"
    using r(2) by simp
  have near: "\<bar>p - ?x\<bar> \<le> \<bar>d - ?x\<bar>" if "binary64 d" for d
    using p that unfolding nearest64_def by blast
  have p0: "0 \<le> p"
    using near [OF binary64_zero] x0 by simp
  have "r \<le> 1 - 1 / 2 ^ 53"
    using r(1,3) by (rule draw_below_one)
  then have "?x \<le> (1 - 1 / 2 ^ 53) * real n"
    by (intro mult_right_mono) simp_all
  then have gap: "real n / 2 ^ 53 \<le> real n - ?x"
    by (simp add: field_simps)
  obtain k where k: "2 ^ k \<le> n" "n < 2 ^ (k + 1)"
    using ex_power_ivl1 [of 2 n] n(1) by auto
  from below_length [OF k n(2)] obtain d where d: "binary64 d" "d < real n"
    and u: "n = 2 ^ k \<longrightarrow> real n - d \<le> real n / 2 ^ 53"
      "n \<noteq> 2 ^ k \<longrightarrow> real n - d = 2 ^ k / 2 ^ 52"
    by blast
  have pn: "p < real n"
  proof (rule ccontr)
    assume "\<not> p < real n"
    then have pge: "real n \<le> p" by simp
    have far: "real n - ?x \<le> \<bar>p - ?x\<bar>"
      using pge by simp
    have "\<bar>d - ?x\<bar> < real n - ?x"
    proof (cases "n = 2 ^ k")
      case True
      with u(1) have "real n - d \<le> real n / 2 ^ 53" by blast
      with gap have "?x \<le> d" by linarith
      with d(2) show ?thesis by linarith
    next
      case False
      with u(2) have ud: "real n - d = 2 ^ k / 2 ^ 52" by blast
      from False k(1) have "2 ^ k < n" by simp
      then have "real (2 ^ k) < real n"
        by (simp only: of_nat_less_iff)
      then have "(2::real) ^ k / 2 ^ 53 < real n / 2 ^ 53"
        by (simp add: divide_strict_right_mono)
      with gap have "(2::real) ^ k / 2 ^ 53 < real n - ?x"
        by linarith
      moreover have "(2::real) ^ k / 2 ^ 52 = 2 * (2 ^ k / 2 ^ 53)"
        by simp
      ultimately show ?thesis
        using ud d(2) by linarith
    qed
    with far near [OF d(1)] show False by linarith
  qed
  from p0 have "0 \<le> \<lfloor>p\<rfloor>" by simp
  moreover from pn have "\<lfloor>p\<rfloor> < int n"
    by (simp add: floor_less_iff)
  ultimately show ?thesis by simp
qed

lemma binary64_dyadic:
  assumes "\<bar>m\<bar> < 2 ^ 53" and "k \<le> 1074"
  shows "binary64 (real_of_int m / 2 ^ k)"
  unfolding binary64_def
  by (rule exI [of _ m], rule exI [of _ "- int k"])
     (use assms in \<open>simp add: power_int_minus field_simps\<close>)

lemma jsDraw_examples:
  "jsDraw 0" "jsDraw (1/2)" "jsDraw (1/4)" "jsDraw (3/4)" "jsDraw (7/8)" "jsDraw (1/8)"
  using binary64_zero binary64_dyadic [of 1 1] binary64_dyadic [of 1 2] binary64_dyadic [of 3 2]
    binary64_dyadic [of 7 3] binary64_dyadic [of 1 3]
  by (simp_all add: jsDraw_def)

subsection \<open>\<open>round64\<close> returns a nearest representable value\<close>

lemma nearest64_round64:
  assumes "0 \<le> x" and "x < 2 ^ 53"
  shows "nearest64 x (round64 x)"
proof (cases "x = 0")
  case True
  then show ?thesis
    by (simp add: round64_def nearest64_def binary64_zero)
next
  case False
  with assms(1) have x: "0 < x" by simp
  define E where "E = ilog2 x"
  define e where "e = max (E - 52) (- 1074)"
  define u :: real where "u = 2 powi e"
  define q where "q = x / u"
  define m where "m = roundEven q"
  have u0: "0 < u"
    by (simp add: u_def)
  have xq: "x = q * u"
    using u0 by (simp add: q_def)
  have p: "round64 x = of_int m * u"
    using x by (simp add: round64_def Let_def E_def e_def u_def q_def m_def)
  have lo: "2 powi E \<le> x" and hi: "x < 2 powi (E + 1)"
    using ilog2_bounds [OF x] by (simp_all add: E_def)
  have E52: "E \<le> 52"
  proof (rule ccontr)
    assume "\<not> E \<le> 52"
    then have "(2::real) powi 53 \<le> 2 powi E"
      by (intro power_int_increasing) simp_all
    with lo assms(2) show False by simp
  qed
  have e1: "E - 52 \<le> e" and e2: "- 1074 \<le> e" and e3: "e \<le> 0"
    using E52 by (simp_all add: e_def)
  have split: "(2::real) powi (e + 53) = 2 ^ 53 * u"
    by (simp add: u_def power_int_add)
  have q0: "0 < q"
    using x u0 by (simp add: q_def)
  have "x < 2 powi (e + 53)"
  proof -
    have "(2::real) powi (E + 1) \<le> 2 powi (e + 53)"
      using e1 by (intro power_int_increasing) simp_all
    with hi show ?thesis by simp
  qed
  then have qhi: "q < 2 ^ 53"
    unfolding split using u0 by (simp add: q_def field_simps)
  have m0: "0 \<le> m"
  proof -
    have "0 \<le> \<lfloor>q\<rfloor>"
      using q0 by simp
    with roundEven_floor(1) [of q] show ?thesis
      unfolding m_def by linarith
  qed
  have mhi: "m \<le> 2 ^ 53"
  proof -
    have "q < real_of_int (2 ^ 53)"
      using qhi by simp
    then have "\<lfloor>q\<rfloor> < 2 ^ 53"
      by (simp only: floor_less_iff)
    with roundEven_floor(2) [of q] show ?thesis
      unfolding m_def by linarith
  qed
  have bin: "binary64 (of_int m * u)"
  proof (cases "m < 2 ^ 53")
    case True
    show ?thesis
      unfolding binary64_def u_def
      by (rule exI [of _ m], rule exI [of _ e]) (use True m0 e2 e3 in simp)
  next
    case False
    with mhi have m: "m = 2 ^ 53" by simp
    have "(2::real) powi (e + 1) = 2 * u"
      by (simp add: u_def power_int_add)
    then have "of_int m * u = real_of_int (2 ^ 52) * 2 powi (e + 1)"
      by (simp add: m)
    moreover have "binary64 (real_of_int (2 ^ 52) * 2 powi (e + 1))"
      unfolding binary64_def
      by (rule exI [of _ "2 ^ 52"], rule exI [of _ "e + 1"]) (use e2 e3 in simp)
    ultimately show ?thesis by simp
  qed
  have K: "\<bar>of_int m * u - x\<bar> \<le> \<bar>of_int k * u - x\<bar>" for k
  proof -
    have "\<bar>of_int m * u - x\<bar> = \<bar>of_int m - q\<bar> * u"
      unfolding xq using u0 by (simp add: left_diff_distrib [symmetric] abs_mult)
    also have "\<dots> \<le> \<bar>of_int k - q\<bar> * u"
      using roundEven_nearest [of q k] u0 by (simp add: m_def)
    also have "\<dots> = \<bar>of_int k * u - x\<bar>"
      unfolding xq using u0 by (simp add: left_diff_distrib [symmetric] abs_mult)
    finally show ?thesis .
  qed
  have near: "\<bar>of_int m * u - x\<bar> \<le> \<bar>d - x\<bar>" if "binary64 d" for d
  proof -
    from that obtain m' e' where d: "d = real_of_int m' * 2 powi e'"
      and m': "\<bar>m'\<bar> < 2 ^ 53" and e': "- 1074 \<le> e'"
      unfolding binary64_def by blast
    show ?thesis
    proof (cases "e \<le> e'")
      case True
      define j where "j = nat (e' - e)"
      have "e' = e + int j"
        using True by (simp add: j_def)
      then have "(2::real) powi e' = u * 2 ^ j"
        by (simp add: u_def power_int_add)
      then have "d = of_int (m' * 2 ^ j) * u"
        by (simp add: d)
      with K [of "m' * 2 ^ j"] show ?thesis by simp
    next
      case False
      then have lt: "e' \<le> e - 1" by simp
      with e' have "e \<noteq> - 1074" by simp
      then have eE: "e = E - 52"
        by (simp add: e_def max_def split: if_splits)
      have "real_of_int m' \<le> real_of_int (2 ^ 53)"
        using m' by (simp only: of_int_le_iff)
      then have "d \<le> 2 ^ 53 * 2 powi e'"
        unfolding d by (intro mult_right_mono) simp_all
      also have "\<dots> \<le> 2 ^ 53 * 2 powi (e - 1)"
        using lt by (intro mult_left_mono power_int_increasing) simp_all
      also have "\<dots> = 2 ^ 52 * u"
        by (simp add: u_def power_int_diff)
      finally have du: "d \<le> 2 ^ 52 * u" .
      have "(2::real) powi E = 2 powi (e + 52)"
        by (simp add: eE)
      also have "\<dots> = 2 ^ 52 * u"
        by (simp add: u_def power_int_add)
      finally have Eu: "(2::real) powi E = 2 ^ 52 * u" .
      from du lo have "\<bar>real_of_int (2 ^ 52) * u - x\<bar> \<le> \<bar>d - x\<bar>"
        unfolding Eu by simp
      with K [of "2 ^ 52"] show ?thesis by linarith
    qed
  qed
  from bin near show ?thesis
    unfolding nearest64_def p by blast
qed

subsection \<open>Integers and the delay\<close>

text \<open>An integer below \<open>2^53\<close> in absolute value is its own rounding, so the delay
  \<open>intervalMinutes * 60 * 1000\<close> as JavaScript computes it, two rounded products, is the
  integer product the model passes to \<open>setInterval\<close>.\<close>

lemma roundEven_of_int: "roundEven (of_int k) = k"
  by (simp add: roundEven_def)

lemma round64_of_int:
  assumes "\<bar>k\<bar> < 2 ^ 53"
  shows "round64 (of_int k) = of_int k"
proof (cases "k = 0")
  case True
  then show ?thesis by (simp add: round64_def)
next
  case False
  define x :: real where "x = \<bar>of_int k\<bar>"
  define E where "E = ilog2 x"
  have "1 \<le> \<bar>k\<bar>"
    using False by simp
  then have "real_of_int 1 \<le> real_of_int \<bar>k\<bar>"
    by (simp only: of_int_le_iff)
  then have x1: "1 \<le> x"
    by (simp add: x_def)
  have "real_of_int \<bar>k\<bar> < real_of_int (2 ^ 53)"
    using assms by (simp only: of_int_less_iff)
  then have xh: "x < 2 ^ 53"
    by (simp add: x_def)
  have x0: "0 < x"
    using x1 by simp
  have lo: "2 powi E \<le> x" and hi: "x < 2 powi (E + 1)"
    using ilog2_bounds [OF x0] by (simp_all add: E_def)
  have E0: "0 \<le> E"
  proof (rule ccontr)
    assume "\<not> 0 \<le> E"
    then have "(2::real) powi (E + 1) \<le> 2 powi 0"
      by (intro power_int_increasing) simp_all
    with hi x1 show False by simp
  qed
  have E52: "E \<le> 52"
  proof (rule ccontr)
    assume "\<not> E \<le> 52"
    then have "(2::real) powi 53 \<le> 2 powi E"
      by (intro power_int_increasing) simp_all
    with lo xh show False by simp
  qed
  define j where "j = nat (52 - E)"
  have e: "max (E - 52) (- 1074) = - int j"
    using E0 E52 by (simp add: j_def)
  have pw: "(2::real) powi (- int j) = 1 / 2 ^ j"
    by (simp add: power_int_minus field_simps)
  have q: "real_of_int k / (1 / 2 ^ j) = real_of_int (k * 2 ^ j)"
    by simp
  have "round64 (of_int k) = of_int (roundEven (real_of_int k / (1 / 2 ^ j))) * (1 / 2 ^ j)"
    using False e pw by (simp add: round64_def Let_def E_def x_def)
  also have "\<dots> = of_int (k * 2 ^ j) * (1 / 2 ^ j)"
    unfolding q roundEven_of_int ..
  also have "\<dots> = of_int k"
    by simp
  finally show ?thesis .
qed

lemma delay_exact:
  assumes "\<bar>m * 60 * 1000\<bar> < 2 ^ 53"
  shows "times64 (times64 (of_int m) 60) 1000 = of_int (m * 60 * 1000)"
proof -
  have a: "\<bar>m * 60\<bar> < 2 ^ 53"
    using assms by (simp add: abs_mult)
  have "times64 (of_int m) 60 = round64 (of_int (m * 60))"
    by (simp add: times64_def)
  also have "\<dots> = of_int (m * 60)"
    using a by (rule round64_of_int)
  finally have b: "times64 (of_int m) 60 = of_int (m * 60)" .
  have "times64 (of_int (m * 60)) 1000 = round64 (of_int (m * 60 * 1000))"
    by (simp add: times64_def)
  also have "\<dots> = of_int (m * 60 * 1000)"
    using assms by (rule round64_of_int)
  finally show ?thesis
    unfolding b .
qed

subsection \<open>The index lies in the list\<close>

lemma arrayIndex_in_range:
  assumes "0 \<le> i" and "i < int (length xs)"
  shows "\<exists>u\<in>set xs. arrayIndex xs i = Some u"
proof -
  from assms have "nat i < length xs"
    by (simp only: nat_less_iff)
  then have "xs ! nat i \<in> set xs"
    by (rule nth_mem)
  moreover have "arrayIndex xs i = Some (xs ! nat i)"
    using assms by (simp add: arrayIndex_def)
  ultimately show ?thesis by blast
qed

lemma floor_product_bounds:
  assumes "0 \<le> r" and "r < 1" and "urls \<noteq> []"
  shows "0 \<le> \<lfloor>r * real (length urls)\<rfloor>" and "\<lfloor>r * real (length urls)\<rfloor> < int (length urls)"
proof -
  have n: "0 < real (length urls)"
    using assms(3) by simp
  have "0 \<le> r * real (length urls)"
    using assms(1) by simp
  then show "0 \<le> \<lfloor>r * real (length urls)\<rfloor>"
    by simp
  have "r * real (length urls) < 1 * real (length urls)"
    using assms(2) n by (rule mult_strict_right_mono)
  then have "r * real (length urls) < of_int (int (length urls))"
    by simp
  then show "\<lfloor>r * real (length urls)\<rfloor> < int (length urls)"
    by (simp only: floor_less_iff)
qed

lemma randomIndex_bounds:
  assumes "jsDraw r" and "urls \<noteq> []" and "length urls < 2 ^ 53"
  shows "0 \<le> randomIndex r urls" and "randomIndex r urls < int (length urls)"
proof -
  from assms(1) have r: "binary64 r" "0 \<le> r" "r < 1"
    by (simp_all add: jsDraw_def)
  let ?x = "r * real (length urls)"
  have n0: "0 < length urls"
    using assms(2) by simp
  have x0: "0 \<le> ?x"
    using r(2) by simp
  have "real (length urls) < real (2 ^ 53)"
    using assms(3) by (simp only: of_nat_less_iff)
  then have nh: "real (length urls) < 2 ^ 53"
    by simp
  have "?x \<le> 1 * real (length urls)"
    using r(3) by (intro mult_right_mono) simp_all
  with nh have xh: "?x < 2 ^ 53"
    by linarith
  have "nearest64 ?x (round64 ?x)"
    using x0 xh by (rule nearest64_round64)
  from rounded_product_in_range [OF r n0 assms(3) this]
  show "0 \<le> randomIndex r urls" and "randomIndex r urls < int (length urls)"
    unfolding randomIndex_def times64_def by blast+
qed

lemma jsArray_53: "jsArray xs \<Longrightarrow> length xs < 2 ^ 53"
proof -
  assume "jsArray xs"
  then have "length xs < 2 ^ 32"
    by (simp add: jsArray_def)
  also have "(2::nat) ^ 32 < 2 ^ 53"
    by simp
  finally show ?thesis .
qed

lemma arrayIndex_randomIndex:
  assumes "jsDraw r" and "urls \<noteq> []" and "jsArray urls"
  shows "\<exists>u\<in>set urls. arrayIndex urls (randomIndex r urls) = Some u"
  using randomIndex_bounds [OF assms(1,2) jsArray_53 [OF assms(3)]]
  by (rule arrayIndex_in_range)

section \<open>The cycle state\<close>

subsection \<open>At most one timer\<close>

lemma oneTimer_cases:
  "oneTimer s \<longleftrightarrow> timers s = [] \<or> (\<exists>h t. timers s = [(h, t)] \<and> intervalId s = Some h)"
  by (auto simp: oneTimer_def split: list.splits)

lemma oneTimer_length: "oneTimer s \<Longrightarrow> length (timers s) \<le> 1"
  by (auto simp: oneTimer_cases)

lemma oneTimer_initial: "oneTimer (initial stored)"
  by (simp add: oneTimer_def initial_def)

lemma oneTimer_None: "oneTimer s \<Longrightarrow> intervalId s = None \<Longrightarrow> timers s = []"
  by (auto simp: oneTimer_cases)

lemma oneTimer_startImageCycle: "oneTimer s \<Longrightarrow> oneTimer (startImageCycle r s)"
  by (auto simp: oneTimer_cases startImageCycle_def setInterval_def showRandomImage_def
        emit_def Let_def)

lemma oneTimer_stopImageCycle: "oneTimer s \<Longrightarrow> oneTimer (stopImageCycle s)"
  by (auto simp: oneTimer_cases stopImageCycle_def clearInterval_def emit_def
        split: option.splits)

lemma oneTimer_deactivate: "oneTimer s \<Longrightarrow> oneTimer (deactivate s)"
  by (auto simp: oneTimer_cases deactivate_def clearInterval_def emit_def
        split: option.splits)

lemma oneTimer_activate: "oneTimer s \<Longrightarrow> oneTimer (activate s)"
  by (auto simp: oneTimer_cases activate_def updateSettings_def emit_def Let_def
        split: option.splits)

lemma oneTimer_openSettings: "oneTimer s \<Longrightarrow> oneTimer (openSettings s)"
  by (auto simp: oneTimer_cases openSettings_def emit_def)

lemma oneTimer_fire: "oneTimer s \<Longrightarrow> oneTimer (fire h r s)"
  by (auto simp: oneTimer_cases fire_def showRandomImage_def emit_def Let_def
        split: option.splits)

lemma oneTimer_onDidReceiveMessage: "oneTimer s \<Longrightarrow> oneTimer (onDidReceiveMessage m r s)"
proof (cases m)
  case (SaveSettings v)
  assume "oneTimer s"
  then show ?thesis using SaveSettings
    by (simp add: oneTimer_cases updateSettings_def emit_def)
qed (simp_all add: oneTimer_startImageCycle oneTimer_stopImageCycle)

lemma oneTimer_step: "oneTimer s \<Longrightarrow> oneTimer (step i s)"
proof -
  assume a: "oneTimer s"
  obtain k r where i: "i = (k, r)" by (cases i)
  show ?thesis unfolding i using a
    by (cases k)
       (simp_all add: oneTimer_activate oneTimer_openSettings oneTimer_onDidReceiveMessage
          oneTimer_fire oneTimer_deactivate)
qed

lemma oneTimer_run: "oneTimer s \<Longrightarrow> oneTimer (run ins s)"
  unfolding run_def by (induction ins arbitrary: s) (simp_all add: oneTimer_step)

lemma run_twoStarts:
  "timers (run twoStarts (initial None)) =
     [(0, \<lparr>callbackUrls = defaultImages, delay = 240000\<rparr>)]"
  by (simp add: twoStarts_def run_def initial_def activate_def updateSettings_def emit_def
        startImageCycle_def getSettings_def setInterval_def showRandomImage_def
        defaultImages_def Let_def)

text \<open>
  Claim C1. A fresh process runs no timer; every step (activation, opening the settings
  surface, each message of the surface, a timer tick, deactivation) keeps the invariant
  that the host runs at most one interval timer of the extension, the one \<open>intervalId\<close>
  holds; so after any sequence of steps from the initial state, whatever the store held,
  at most one timer is running. The variable \<open>intervalId\<close> is an optional handle, so the
  controller holds zero or one handle by its type.
\<close>

theorem at_most_one_timer:
  "oneTimer (initial stored)
   \<and> (oneTimer s \<longrightarrow> oneTimer (step i s))
   \<and> oneTimer (run ins (initial stored))
   \<and> length (timers (run ins (initial stored))) \<le> 1"
proof -
  have r: "oneTimer (run ins (initial stored))"
    by (rule oneTimer_run) (rule oneTimer_initial)
  from r have "length (timers (run ins (initial stored))) \<le> 1"
    by (rule oneTimer_length)
  with r show ?thesis
    by (simp add: oneTimer_initial oneTimer_step)
qed

theorem at_most_one_timer_witness:
  "oneTimer (initial None)
   \<and> oneTimer (step (Receive StartCycle, 1/2) (initial None))
   \<and> length (timers (run twoStarts (initial None))) = 1"
proof -
  have h: "oneTimer (initial None)"
    by (simp add: oneTimer_def initial_def)
  from h at_most_one_timer [of None "initial None" "(Receive StartCycle, 1/2)" twoStarts]
  have "oneTimer (step (Receive StartCycle, 1/2) (initial None))"
    by simp
  with h show ?thesis
    by (simp add: run_twoStarts)
qed

section \<open>Starting and stopping\<close>

text \<open>
  Claim C2. Whenever the settings that \<open>startImageCycle\<close> reads (the stored value, or the
  built-in one when nothing is stored) have an empty \<open>imageUrls\<close>, the call shows the error
  message and does nothing else: no timer is created, and the handle, the timer table and
  the stored settings are what they were.
\<close>

theorem startImageCycle_empty:
  assumes "imageUrls (getSettings s) = []"
  shows "startImageCycle r s =
           emit (ShowMessage ErrorMessage ''Please set image URLs in the settings first'') s
         \<and> calls (startImageCycle r s) =
           calls s @ [ShowMessage ErrorMessage ''Please set image URLs in the settings first'']
         \<and> timers (startImageCycle r s) = timers s
         \<and> intervalId (startImageCycle r s) = intervalId s
         \<and> nextHandle (startImageCycle r s) = nextHandle s
         \<and> globalState (startImageCycle r s) = globalState s"
  using assms by (simp add: startImageCycle_def emit_def)

theorem startImageCycle_empty_witness:
  "imageUrls (getSettings emptied) = []
   \<and> startImageCycle (1/2) emptied =
       \<lparr>globalState = Some \<lparr>imageUrls = [], intervalMinutes = 7\<rparr>, intervalId = None,
        timers = [], nextHandle = 0,
        calls = [ShowMessage ErrorMessage ''Please set image URLs in the settings first'']\<rparr>"
proof -
  have h: "imageUrls (getSettings emptied) = []"
    by (simp add: emptied_def initial_def getSettings_def)
  show ?thesis
    using h startImageCycle_empty [OF h, of "1/2"]
    by (simp add: emptied_def initial_def emit_def)
qed

lemma cycleActive_cases:
  "cycleActive s \<longleftrightarrow> (\<exists>h t. intervalId s = Some h \<and> timers s = [(h, t)])"
  by (auto simp: cycleActive_def split: option.splits list.splits)

lemma running_eq:
  "running =
    \<lparr>globalState = Some \<lparr>imageUrls = [''a'', ''b''], intervalMinutes = 7\<rparr>,
     intervalId = Some 0,
     timers = [(0, \<lparr>callbackUrls = [''a'', ''b''], delay = 420000\<rparr>)],
     nextHandle = 1,
     calls = [SetInterval 0 [''a'', ''b''] 420000,
              CreateWebviewPanel ''imageViewer'' ''Full Screen Image'' (FullScreenImage (Some ''b'')),
              ShowMessage InformationMessage ''Started image cycle'']\<rparr>"
  by (simp add: running_def initial_def startImageCycle_def getSettings_def setInterval_def
        showRandomImage_def emit_def arrayIndex_def randomIndex_examples Let_def)

text \<open>
  Claim C3. In every state where a cycle is active and the settings read have a non-empty
  \<open>imageUrls\<close>, \<open>startImageCycle\<close> shows the warning and does nothing else: exactly one
  timer is still running, and the handle, the timer table and the stored settings are
  unchanged.
\<close>

theorem startImageCycle_running:
  assumes "cycleActive s" and "imageUrls (getSettings s) \<noteq> []"
  shows "startImageCycle r s =
           emit (ShowMessage WarningMessage ''Image cycle is already running'') s
         \<and> calls (startImageCycle r s) =
           calls s @ [ShowMessage WarningMessage ''Image cycle is already running'']
         \<and> length (timers (startImageCycle r s)) = 1
         \<and> cycleActive (startImageCycle r s)
         \<and> timers (startImageCycle r s) = timers s
         \<and> intervalId (startImageCycle r s) = intervalId s
         \<and> globalState (startImageCycle r s) = globalState s"
proof -
  from assms(1) obtain h t where h: "intervalId s = Some h" "timers s = [(h, t)]"
    by (auto simp: cycleActive_cases)
  have e: "startImageCycle r s =
           emit (ShowMessage WarningMessage ''Image cycle is already running'') s"
    using assms(2) h by (simp add: startImageCycle_def)
  show ?thesis unfolding e using h
    by (simp add: emit_def cycleActive_cases)
qed

theorem startImageCycle_running_witness:
  "cycleActive running \<and> imageUrls (getSettings running) \<noteq> []
   \<and> startImageCycle (1/4) running =
       running\<lparr>calls := calls running @ [ShowMessage WarningMessage ''Image cycle is already running'']\<rparr>
   \<and> length (timers (startImageCycle (1/4) running)) = 1"
proof -
  have a: "cycleActive running"
    by (simp add: running_eq cycleActive_def)
  have b: "imageUrls (getSettings running) \<noteq> []"
    by (simp add: running_eq getSettings_def)
  note t = startImageCycle_running [OF a b, of "1/4"]
  from t have e: "startImageCycle (1/4) running =
      emit (ShowMessage WarningMessage ''Image cycle is already running'') running"
    by (rule conjunct1)
  from t have l: "length (timers (startImageCycle (1/4) running)) = 1"
    by blast
  from a b l show ?thesis
    unfolding e by (simp add: emit_def)
qed

subsection \<open>Handle and host agree until teardown\<close>

lemma coherent_cases:
  "coherent s \<longleftrightarrow>
     (intervalId s = None \<and> timers s = []) \<or> (\<exists>h t. intervalId s = Some h \<and> timers s = [(h, t)])"
  by (auto simp: coherent_def cycleActive_cases)

lemma coherent_initial: "coherent (initial stored)"
  by (simp add: coherent_def initial_def)

lemma coherent_step:
  assumes "coherent s" and "fst i \<noteq> Deactivate"
  shows "coherent (step i s)"
proof -
  obtain k r where i: "i = (k, r)" by (cases i)
  show ?thesis
  proof (cases k)
    case Activate
    with assms(1) i show ?thesis
      by (auto simp: coherent_cases activate_def updateSettings_def emit_def Let_def
            split: option.splits)
  next
    case OpenSettings
    with assms(1) i show ?thesis
      by (auto simp: coherent_cases openSettings_def emit_def)
  next
    case (Receive m)
    show ?thesis
    proof (cases m)
      case (SaveSettings v)
      with assms(1) i Receive show ?thesis
        by (auto simp: coherent_cases updateSettings_def emit_def)
    next
      case StartCycle
      with assms(1) i Receive show ?thesis
        by (auto simp: coherent_cases startImageCycle_def setInterval_def showRandomImage_def
              emit_def Let_def)
    next
      case StopCycle
      with assms(1) i Receive show ?thesis
        by (auto simp: coherent_cases stopImageCycle_def clearInterval_def emit_def)
    next
      case (OtherCommand c)
      with assms(1) i Receive show ?thesis by simp
    qed
  next
    case (Fire h)
    with assms(1) i show ?thesis
      by (auto simp: coherent_cases fire_def showRandomImage_def emit_def split: option.splits)
  next
    case Deactivate
    with assms(2) i show ?thesis by simp
  qed
qed

lemma coherent_run:
  "coherent s \<Longrightarrow> \<forall>i\<in>set ins. fst i \<noteq> Deactivate \<Longrightarrow> coherent (run ins s)"
  unfolding run_def by (induction ins arbitrary: s) (simp_all add: coherent_step)

lemma stopImageCycle_idle:
  assumes "\<forall>i\<in>set ins. fst i \<noteq> Deactivate" and "timers (run ins (initial stored)) = []"
  shows "intervalId (run ins (initial stored)) = None"
proof -
  have "coherent (run ins (initial stored))"
    using coherent_initial assms(1) by (rule coherent_run)
  with assms(2) show ?thesis
    by (auto simp: coherent_cases)
qed

lemma run_startStop: "timers (run startStop (initial None)) = []"
  by (simp add: startStop_def run_def initial_def activate_def updateSettings_def emit_def
        startImageCycle_def stopImageCycle_def clearInterval_def getSettings_def setInterval_def
        showRandomImage_def fire_def defaultImages_def Let_def)

text \<open>
  Claim C4. When \<open>intervalId\<close> is \<open>undefined\<close>, \<open>stopImageCycle\<close> shows the warning and
  changes nothing else. When \<open>intervalId\<close> holds a handle \<open>h\<close>, it calls \<open>clearInterval\<close> on
  \<open>h\<close>, so that the host no longer runs \<open>h\<close> (and runs no timer at all in a state that
  satisfies the invariant), resets \<open>intervalId\<close> to \<open>undefined\<close> and reports success; the
  store is untouched. The source tests the handle variable, and that is how ``no active
  timer'' is read in the first two parts. The third part reads it on the host: in every
  state reached from the initial one before \<open>deactivate\<close>, if the host runs no timer then
  \<open>stopImageCycle\<close> shows the warning and changes nothing else. (\<open>deactivate\<close> clears the
  timer and leaves the handle set; it is the teardown, after which the host delivers no
  message.)
\<close>

theorem stopImageCycle_cases:
  "(intervalId s = None \<longrightarrow>
      stopImageCycle s = emit (ShowMessage WarningMessage ''Image cycle is not running'') s
      \<and> calls (stopImageCycle s) =
          calls s @ [ShowMessage WarningMessage ''Image cycle is not running'']
      \<and> timers (stopImageCycle s) = timers s
      \<and> intervalId (stopImageCycle s) = None
      \<and> nextHandle (stopImageCycle s) = nextHandle s
      \<and> globalState (stopImageCycle s) = globalState s)
   \<and> (intervalId s = Some h \<longrightarrow>
      calls (stopImageCycle s) =
          calls s @ [ClearInterval h, ShowMessage InformationMessage ''Stopped image cycle'']
      \<and> timers (stopImageCycle s) = filter (\<lambda>e. fst e \<noteq> h) (timers s)
      \<and> map_of (timers (stopImageCycle s)) h = None
      \<and> (oneTimer s \<longrightarrow> timers (stopImageCycle s) = [])
      \<and> intervalId (stopImageCycle s) = None
      \<and> globalState (stopImageCycle s) = globalState s)
   \<and> ((\<forall>i\<in>set ins. fst i \<noteq> Deactivate) \<and> timers (run ins (initial stored)) = [] \<longrightarrow>
      stopImageCycle (run ins (initial stored)) =
        emit (ShowMessage WarningMessage ''Image cycle is not running'')
          (run ins (initial stored)))"
proof -
  have m: "map_of (filter (\<lambda>e. fst e \<noteq> h) xs) h = None" for xs :: "(nat \<times> timer) list"
    by (induction xs) auto
  have w: "stopImageCycle t = emit (ShowMessage WarningMessage ''Image cycle is not running'') t"
    if "intervalId t = None" for t
    using that by (simp add: stopImageCycle_def)
  have l: "stopImageCycle (run ins (initial stored)) =
        emit (ShowMessage WarningMessage ''Image cycle is not running'')
          (run ins (initial stored))"
    if "\<forall>i\<in>set ins. fst i \<noteq> Deactivate" and "timers (run ins (initial stored)) = []"
    using that by (intro w stopImageCycle_idle)
  have a: "intervalId s = None \<longrightarrow>
      stopImageCycle s = emit (ShowMessage WarningMessage ''Image cycle is not running'') s
      \<and> calls (stopImageCycle s) =
          calls s @ [ShowMessage WarningMessage ''Image cycle is not running'']
      \<and> timers (stopImageCycle s) = timers s
      \<and> intervalId (stopImageCycle s) = None
      \<and> nextHandle (stopImageCycle s) = nextHandle s
      \<and> globalState (stopImageCycle s) = globalState s"
    by (simp add: stopImageCycle_def emit_def)
  have b: "intervalId s = Some h \<longrightarrow>
      calls (stopImageCycle s) =
          calls s @ [ClearInterval h, ShowMessage InformationMessage ''Stopped image cycle'']
      \<and> timers (stopImageCycle s) = filter (\<lambda>e. fst e \<noteq> h) (timers s)
      \<and> map_of (timers (stopImageCycle s)) h = None
      \<and> (oneTimer s \<longrightarrow> timers (stopImageCycle s) = [])
      \<and> intervalId (stopImageCycle s) = None
      \<and> globalState (stopImageCycle s) = globalState s"
    by (auto simp: stopImageCycle_def clearInterval_def emit_def m oneTimer_cases)
  from a b l show ?thesis
    by blast
qed

theorem stopImageCycle_cases_witness:
  "intervalId (initial None) = None
   \<and> stopImageCycle (initial None) =
       (initial None)\<lparr>calls := [ShowMessage WarningMessage ''Image cycle is not running'']\<rparr>
   \<and> intervalId running = Some 0 \<and> oneTimer running
   \<and> timers (stopImageCycle running) = []
   \<and> intervalId (stopImageCycle running) = None
   \<and> calls (stopImageCycle running) =
       calls running @ [ClearInterval 0, ShowMessage InformationMessage ''Stopped image cycle'']
   \<and> timers (run startStop (initial None)) = []
   \<and> stopImageCycle (run startStop (initial None)) =
       emit (ShowMessage WarningMessage ''Image cycle is not running'')
         (run startStop (initial None))"
proof -
  have a: "intervalId (initial None) = None"
    by (simp add: initial_def)
  have b: "intervalId running = Some 0"
    by (simp add: running_eq)
  have c: "oneTimer running"
    by (simp add: running_eq oneTimer_def)
  have i: "\<forall>i\<in>set startStop. fst i \<noteq> Deactivate"
    by (simp add: startStop_def)
  note j = run_startStop
  from a stopImageCycle_cases [of "initial None" 0]
  have d: "stopImageCycle (initial None) =
      emit (ShowMessage WarningMessage ''Image cycle is not running'') (initial None)"
    by blast
  from b c stopImageCycle_cases [of running 0]
  have e: "timers (stopImageCycle running) = []"
    "intervalId (stopImageCycle running) = None"
    "calls (stopImageCycle running) =
       calls running @ [ClearInterval 0, ShowMessage InformationMessage ''Stopped image cycle'']"
    by blast+
  from i j stopImageCycle_cases [of "initial None" 0 startStop None]
  have k: "stopImageCycle (run startStop (initial None)) =
       emit (ShowMessage WarningMessage ''Image cycle is not running'')
         (run startStop (initial None))"
    by blast
  have f: "emit (ShowMessage WarningMessage ''Image cycle is not running'') (initial None) =
      (initial None)\<lparr>calls := [ShowMessage WarningMessage ''Image cycle is not running'']\<rparr>"
    by (simp add: emit_def initial_def)
  from a b c d e f j k show ?thesis
    by simp
qed

section \<open>Persisted settings\<close>

text \<open>
  Claim C5. With nothing stored, \<open>activate\<close> writes the built-in settings, the six fixed
  URLs with interval 4; with any settings value stored, \<open>activate\<close> leaves it as it is and
  registers the command only.
\<close>

theorem activate_defaults:
  "(globalState s = None \<longrightarrow>
      globalState (activate s) =
        Some \<lparr>imageUrls =
                [''https://i.imgur.com/lBsiH4u.png'', ''https://i.imgur.com/771nDEc.png'',
                 ''https://i.imgur.com/oL0mqN5.png'', ''https://i.imgur.com/2hJcobD.png'',
                 ''https://i.imgur.com/9BzZDag.png'', ''https://i.imgur.com/O4u6CXU.png''],
              intervalMinutes = 4\<rparr>
      \<and> length (imageUrls (getSettings (activate s))) = 6
      \<and> intervalMinutes (getSettings (activate s)) = 4)
   \<and> (globalState s = Some v \<longrightarrow>
      globalState (activate s) = Some v
      \<and> calls (activate s) = calls s @ [RegisterCommand ''extension.openSettings''])"
  by (simp add: activate_def updateSettings_def emit_def getSettings_def defaultImages_def)

theorem activate_defaults_witness:
  "globalState (initial None) = None
   \<and> globalState (activate (initial None)) = Some defaultSettings
   \<and> globalState emptied = Some \<lparr>imageUrls = [], intervalMinutes = 7\<rparr>
   \<and> globalState (activate emptied) = Some \<lparr>imageUrls = [], intervalMinutes = 7\<rparr>
   \<and> globalState (activate (activate (initial None))) = Some defaultSettings"
proof -
  have a: "globalState (initial None) = None"
    by (simp add: initial_def)
  have b: "globalState emptied = Some \<lparr>imageUrls = [], intervalMinutes = 7\<rparr>"
    by (simp add: emptied_def initial_def)
  have c: "globalState (activate (initial None)) = Some defaultSettings"
    using a activate_defaults [of "initial None"]
    by (simp add: defaultSettings_def defaultImages_def)
  show ?thesis
    using a b c activate_defaults [of emptied "\<lparr>imageUrls = [], intervalMinutes = 7\<rparr>"]
      activate_defaults [of "activate (initial None)" defaultSettings]
    by simp
qed

lemma globalState_step:
  assumes "globalState s = Some v" and "\<not> isSave (fst i)"
  shows "globalState (step i s) = Some v"
proof -
  obtain k r where i: "i = (k, r)" by (cases i)
  show ?thesis
  proof (cases k)
    case Activate
    with assms i show ?thesis by (simp add: activate_def emit_def)
  next
    case OpenSettings
    with assms i show ?thesis by (simp add: openSettings_def emit_def)
  next
    case (Receive m)
    with assms i show ?thesis
      by (cases m)
         (simp_all add: startImageCycle_def stopImageCycle_def setInterval_def clearInterval_def
            showRandomImage_def emit_def Let_def split: option.splits)
  next
    case (Fire h)
    with assms i show ?thesis
      by (simp add: fire_def showRandomImage_def emit_def split: option.splits)
  next
    case Deactivate
    with assms i show ?thesis
      by (simp add: deactivate_def clearInterval_def emit_def split: option.splits)
  qed
qed

lemma globalState_run:
  "globalState s = Some v \<Longrightarrow> \<forall>i\<in>set ins. \<not> isSave (fst i) \<Longrightarrow> globalState (run ins s) = Some v"
  unfolding run_def by (induction ins arbitrary: s) (simp_all add: globalState_step)

text \<open>
  Claim C6. After the handler has processed \<open>saveSettings\<close> carrying \<open>v\<close>, the store holds
  exactly \<open>v\<close>, whatever it held before; the read of \<open>startImageCycle\<close> and \<open>openSettings\<close>
  returns \<open>v\<close>, the settings surface renders \<open>v\<close>, and this stays so over any later steps
  that are not another save.
\<close>

theorem saveSettings_roundtrip:
  "globalState (onDidReceiveMessage (SaveSettings v) r s) = Some v
   \<and> getSettings (onDidReceiveMessage (SaveSettings v) r s) = v
   \<and> openSettings (onDidReceiveMessage (SaveSettings v) r s) =
       emit (CreateWebviewPanel ''imageSettings'' ''Image Cycle Settings'' (SettingsForm v))
         (onDidReceiveMessage (SaveSettings v) r s)
   \<and> ((\<forall>i\<in>set ins. \<not> isSave (fst i)) \<longrightarrow>
        getSettings (run ins (onDidReceiveMessage (SaveSettings v) r s)) = v)"
proof -
  have g: "globalState (onDidReceiveMessage (SaveSettings v) r s) = Some v"
    by (simp add: updateSettings_def emit_def)
  have "getSettings (run ins (onDidReceiveMessage (SaveSettings v) r s)) = v"
    if "\<forall>i\<in>set ins. \<not> isSave (fst i)"
    using globalState_run [OF g that] by (simp add: getSettings_def)
  with g show ?thesis
    by (simp add: getSettings_def openSettings_def)
qed

theorem saveSettings_roundtrip_witness:
  "getSettings (onDidReceiveMessage (SaveSettings ab7) 0 (initial (Some defaultSettings))) = ab7
   \<and> getSettings (run afterSave
         (onDidReceiveMessage (SaveSettings ab7) 0 (initial (Some defaultSettings)))) = ab7"
proof -
  have a: "\<forall>i\<in>set afterSave. \<not> isSave (fst i)"
    by (simp add: afterSave_def)
  from a saveSettings_roundtrip [of ab7 0 "initial (Some defaultSettings)" afterSave]
  show ?thesis by blast
qed

section \<open>What a cycle displays\<close>

text \<open>
  Claim C7, as stated, puts the immediate display before the scheduling. The source calls
  \<open>setInterval\<close> first (line 185) and \<open>showRandomImage\<close> after it (line 189): from a fresh
  process with nothing stored, the calls are \<open>setInterval\<close>, \<open>createWebviewPanel\<close>,
  \<open>showInformationMessage\<close> in this order, so the display does not precede the scheduling.
\<close>

theorem startImageCycle_display_first_counterexample:
  "newCalls (initial None) (startImageCycle 0 (initial None)) =
     [SetInterval 0 defaultImages 240000,
      CreateWebviewPanel ''imageViewer'' ''Full Screen Image''
        (FullScreenImage (Some ''https://i.imgur.com/lBsiH4u.png'')),
      ShowMessage InformationMessage ''Started image cycle'']
   \<and> \<not> precedes isDisplay isSchedule (newCalls (initial None) (startImageCycle 0 (initial None)))"
  by (simp add: newCalls_def initial_def startImageCycle_def getSettings_def defaultSettings_def
        setInterval_def showRandomImage_def emit_def arrayIndex_def randomIndex_zero
        precedes_def defaultImages_def Let_def)

lemma startImageCycle_fresh:
  assumes "imageUrls (getSettings s) \<noteq> []" and "intervalId s = None"
  shows "startImageCycle r s =
      s\<lparr>timers := timers s @
           [(nextHandle s, \<lparr>callbackUrls = imageUrls (getSettings s),
                            delay = intervalMinutes (getSettings s) * 60 * 1000\<rparr>)],
        nextHandle := Suc (nextHandle s),
        intervalId := Some (nextHandle s),
        calls := calls s @
           [SetInterval (nextHandle s) (imageUrls (getSettings s))
              (intervalMinutes (getSettings s) * 60 * 1000),
            CreateWebviewPanel ''imageViewer'' ''Full Screen Image''
              (FullScreenImage
                (arrayIndex (imageUrls (getSettings s))
                   (randomIndex r (imageUrls (getSettings s))))),
            ShowMessage InformationMessage ''Started image cycle'']\<rparr>"
  using assms
  by (simp add: startImageCycle_def setInterval_def showRandomImage_def emit_def Let_def)

lemma fire_running:
  assumes "map_of (timers s) h = Some t"
  shows "fire h r s =
     s\<lparr>calls := calls s @
         [CreateWebviewPanel ''imageViewer'' ''Full Screen Image''
            (FullScreenImage (arrayIndex (callbackUrls t) (randomIndex r (callbackUrls t))))]\<rparr>"
  using assms by (simp add: fire_def showRandomImage_def emit_def)

text \<open>
  Claim C7, amended. With a non-empty \<open>imageUrls\<close> and no cycle active, \<open>startImageCycle\<close>
  first schedules the repeating action, passing \<open>intervalMinutes * 60 * 1000\<close> as the delay,
  then displays the image at the index \<open>Math.floor(r * length)\<close> for its own draw \<open>r\<close>, then
  reports success; the scheduling precedes the display. The handle is kept in
  \<open>intervalId\<close>, and each firing of that timer displays the image at the index
  \<open>Math.floor(r' * length)\<close> of the same list for its draw \<open>r'\<close> and leaves the timer running.
\<close>

theorem startImageCycle_schedules_then_displays:
  assumes "imageUrls (getSettings s) \<noteq> []" and "intervalId s = None" and "oneTimer s"
  shows "newCalls s (startImageCycle r s) =
           [SetInterval (nextHandle s) (imageUrls (getSettings s))
              (intervalMinutes (getSettings s) * 60 * 1000),
            CreateWebviewPanel ''imageViewer'' ''Full Screen Image''
              (FullScreenImage
                (arrayIndex (imageUrls (getSettings s))
                   (randomIndex r (imageUrls (getSettings s))))),
            ShowMessage InformationMessage ''Started image cycle'']
         \<and> precedes isSchedule isDisplay (newCalls s (startImageCycle r s))
         \<and> intervalId (startImageCycle r s) = Some (nextHandle s)
         \<and> timers (startImageCycle r s) =
           [(nextHandle s, \<lparr>callbackUrls = imageUrls (getSettings s),
                            delay = intervalMinutes (getSettings s) * 60 * 1000\<rparr>)]
         \<and> newCalls (startImageCycle r s) (fire (nextHandle s) r' (startImageCycle r s)) =
           [CreateWebviewPanel ''imageViewer'' ''Full Screen Image''
              (FullScreenImage
                (arrayIndex (imageUrls (getSettings s))
                   (randomIndex r' (imageUrls (getSettings s)))))]
         \<and> timers (fire (nextHandle s) r' (startImageCycle r s)) = timers (startImageCycle r s)"
proof -
  let ?urls = "imageUrls (getSettings s)"
  let ?t = "\<lparr>callbackUrls = ?urls, delay = intervalMinutes (getSettings s) * 60 * 1000\<rparr>"
  have e: "timers s = []"
    using assms(2,3) by (rule oneTimer_None [rotated])
  note st = startImageCycle_fresh [OF assms(1,2), of r]
  have c: "newCalls s (startImageCycle r s) =
           [SetInterval (nextHandle s) ?urls (intervalMinutes (getSettings s) * 60 * 1000),
            CreateWebviewPanel ''imageViewer'' ''Full Screen Image''
              (FullScreenImage (arrayIndex ?urls (randomIndex r ?urls))),
            ShowMessage InformationMessage ''Started image cycle'']"
    unfolding st by (simp add: newCalls_def)
  have p: "precedes isSchedule isDisplay (newCalls s (startImageCycle r s))"
    unfolding c by (simp add: precedes_def)
  have t: "timers (startImageCycle r s) = [(nextHandle s, ?t)]"
    unfolding st by (simp add: e)
  have i: "intervalId (startImageCycle r s) = Some (nextHandle s)"
    unfolding st by simp
  have m: "map_of (timers (startImageCycle r s)) (nextHandle s) = Some ?t"
    unfolding t by simp
  have f: "newCalls (startImageCycle r s) (fire (nextHandle s) r' (startImageCycle r s)) =
           [CreateWebviewPanel ''imageViewer'' ''Full Screen Image''
              (FullScreenImage (arrayIndex ?urls (randomIndex r' ?urls)))]"
    unfolding fire_running [OF m] by (simp add: newCalls_def)
  have u: "timers (fire (nextHandle s) r' (startImageCycle r s)) = timers (startImageCycle r s)"
    unfolding fire_running [OF m] by simp
  from c p t i f u show ?thesis by simp
qed

theorem startImageCycle_schedules_then_displays_witness:
  "imageUrls (getSettings (initial (Some ab7))) \<noteq> []
   \<and> intervalId (initial (Some ab7)) = None
   \<and> oneTimer (initial (Some ab7))
   \<and> newCalls (initial (Some ab7)) (startImageCycle (1/2) (initial (Some ab7))) =
       [SetInterval 0 [''a'', ''b''] 420000,
        CreateWebviewPanel ''imageViewer'' ''Full Screen Image'' (FullScreenImage (Some ''b'')),
        ShowMessage InformationMessage ''Started image cycle'']
   \<and> newCalls (startImageCycle (1/2) (initial (Some ab7)))
        (fire 0 (1/4) (startImageCycle (1/2) (initial (Some ab7)))) =
       [CreateWebviewPanel ''imageViewer'' ''Full Screen Image'' (FullScreenImage (Some ''a''))]"
proof -
  have g: "getSettings (initial (Some ab7)) = ab7"
    by (simp add: getSettings_def initial_def)
  have a: "imageUrls (getSettings (initial (Some ab7))) \<noteq> []"
    unfolding g by (simp add: ab7_def)
  have b: "intervalId (initial (Some ab7)) = None"
    by (simp add: initial_def)
  have c: "oneTimer (initial (Some ab7))"
    by (simp add: initial_def oneTimer_def)
  have n: "nextHandle (initial (Some ab7)) = 0"
    by (simp add: initial_def)
  from a b c startImageCycle_schedules_then_displays [OF a b c, of "1/2" "1/4"]
  show ?thesis
    unfolding g n by (simp add: ab7_def arrayIndex_def randomIndex_examples)
qed

subsection \<open>The draw decides the image\<close>

lemma images_emit: "images (emit c s) = images s @ shownImage c"
  by (simp add: images_def emit_def)

lemma images_showRandomImage:
  "images (showRandomImage r urls s) = images s @ [arrayIndex urls (randomIndex r urls)]"
  by (simp add: showRandomImage_def images_emit)

lemma timers_showRandomImage: "timers (showRandomImage r urls s) = timers s"
  by (simp add: showRandomImage_def emit_def)

lemma images_fires:
  assumes "map_of (timers s) h = Some t"
  shows "images (run (map (\<lambda>r. (Fire h, r)) rs) s) =
           images s @ map (\<lambda>r. arrayIndex (callbackUrls t) (randomIndex r (callbackUrls t))) rs"
  using assms
proof (induction rs arbitrary: s)
  case Nil
  then show ?case by (simp add: run_def)
next
  case (Cons r rs)
  let ?s = "fire h r s"
  have f: "?s = showRandomImage r (callbackUrls t) s"
    using Cons.prems by (simp add: fire_def)
  have m: "map_of (timers ?s) h = Some t"
    using Cons.prems by (simp add: f timers_showRandomImage)
  from Cons.IH [OF m] show ?case
    by (simp add: run_def f images_showRandomImage)
qed

lemma map_all_equal: "\<forall>x\<in>set xs. f x = c \<Longrightarrow> map f xs = replicate (length xs) c"
  by (induction xs) simp_all

text \<open>
  Claim C8. \<open>showRandomImage\<close> displays the element of its list at the index
  \<open>Math.floor(r * length)\<close>, for every draw \<open>r\<close> and every list, the product being the one
  JavaScript computes (and \<open>undefined\<close> where that index is outside the list). A cycle
  started on a non-empty list therefore displays, at its start and at every tick, the
  element its own draw selects from the list read at the start. In particular, if every
  draw yields index 0, the immediate display and every tick display \<open>imageUrls[0]\<close>.
\<close>

theorem displayed_url_follows_draw:
  "images (showRandomImage r urls s) =
     images s @ [arrayIndex urls \<lfloor>times64 r (real (length urls))\<rfloor>]
   \<and> (imageUrls (getSettings s) \<noteq> [] \<and> intervalId s = None \<and> oneTimer s \<longrightarrow>
        images (run ((Receive StartCycle, r) # map (\<lambda>r'. (Fire (nextHandle s), r')) rs) s) =
          images s @
          map (\<lambda>d. arrayIndex (imageUrls (getSettings s))
                     \<lfloor>times64 d (real (length (imageUrls (getSettings s))))\<rfloor>) (r # rs)
        \<and> (randomIndex r (imageUrls (getSettings s)) = 0
             \<and> (\<forall>r'\<in>set rs. randomIndex r' (imageUrls (getSettings s)) = 0) \<longrightarrow>
            images (run ((Receive StartCycle, r) # map (\<lambda>r'. (Fire (nextHandle s), r')) rs) s) =
              images s @ replicate (Suc (length rs)) (Some (imageUrls (getSettings s) ! 0))))"
proof -
  let ?urls = "imageUrls (getSettings s)"
  let ?run = "run ((Receive StartCycle, r) # map (\<lambda>r'. (Fire (nextHandle s), r')) rs) s"
  let ?pick = "\<lambda>d. arrayIndex ?urls (randomIndex d ?urls)"
  have one: "images (showRandomImage r urls s) =
     images s @ [arrayIndex urls \<lfloor>times64 r (real (length urls))\<rfloor>]"
    by (simp add: images_showRandomImage randomIndex_def)
  have all: "images ?run = images s @ map ?pick (r # rs)"
    and zero: "randomIndex r ?urls = 0 \<Longrightarrow> \<forall>r'\<in>set rs. randomIndex r' ?urls = 0 \<Longrightarrow>
      images ?run = images s @ replicate (Suc (length rs)) (Some (?urls ! 0))"
    if a: "?urls \<noteq> []" "intervalId s = None" "oneTimer s"
  proof -
    let ?t = "\<lparr>callbackUrls = ?urls, delay = intervalMinutes (getSettings s) * 60 * 1000\<rparr>"
    let ?s = "startImageCycle r s"
    have e: "timers s = []"
      using a(2,3) by (rule oneTimer_None [rotated])
    note st = startImageCycle_fresh [OF a(1,2), of r]
    have m: "map_of (timers ?s) (nextHandle s) = Some ?t"
      unfolding st by (simp add: e)
    have i: "images ?s = images s @ [?pick r]"
      unfolding st by (simp add: images_def)
    from images_fires [OF m, of rs] show all: "images ?run = images s @ map ?pick (r # rs)"
      by (simp add: run_def i)
    show "images ?run = images s @ replicate (Suc (length rs)) (Some (?urls ! 0))"
      if z: "randomIndex r ?urls = 0" "\<forall>r'\<in>set rs. randomIndex r' ?urls = 0"
    proof -
      have "\<forall>d\<in>set (r # rs). ?pick d = Some (?urls ! 0)"
        using z a(1) by (simp add: arrayIndex_def)
      then have "map ?pick (r # rs) = replicate (length (r # rs)) (Some (?urls ! 0))"
        by (rule map_all_equal)
      with all show ?thesis by simp
    qed
  qed
  from one all zero show ?thesis
    unfolding randomIndex_def by blast
qed

theorem displayed_url_follows_draw_witness:
  "images (showRandomImage (3/4) abc (initial None)) = [Some ''c'']
   \<and> images (showRandomImage (6004799503160661 / 2 ^ 54) abc (initial None)) = [Some ''b'']
   \<and> imageUrls (getSettings (initial (Some ab7))) \<noteq> []
   \<and> intervalId (initial (Some ab7)) = None
   \<and> oneTimer (initial (Some ab7))
   \<and> images (run [(Receive StartCycle, 3/4), (Fire 0, 1/4), (Fire 0, 1/2), (Fire 0, 0)]
        (initial (Some ab7))) = [Some ''b'', Some ''a'', Some ''b'', Some ''a'']
   \<and> randomIndex (1/4) (imageUrls (getSettings (initial (Some ab7)))) = 0
   \<and> randomIndex (1/8) (imageUrls (getSettings (initial (Some ab7)))) = 0
   \<and> images (run [(Receive StartCycle, 1/4), (Fire 0, 0), (Fire 0, 1/8)]
        (initial (Some ab7))) = [Some ''a'', Some ''a'', Some ''a'']"
proof -
  have g: "getSettings (initial (Some ab7)) = ab7"
    by (simp add: getSettings_def initial_def)
  have a: "imageUrls (getSettings (initial (Some ab7))) \<noteq> []"
    unfolding g by (simp add: ab7_def)
  have b: "intervalId (initial (Some ab7)) = None"
    by (simp add: initial_def)
  have c: "oneTimer (initial (Some ab7))"
    by (simp add: initial_def oneTimer_def)
  have n: "nextHandle (initial (Some ab7)) = 0" "images (initial (Some ab7)) = []"
    "images (initial None) = []"
    by (simp_all add: initial_def images_def)
  have u: "imageUrls ab7 = [''a'', ''b'']"
    by (simp add: ab7_def)
  have f: "\<lfloor>times64 d (real (length xs))\<rfloor> = randomIndex d xs" for d xs
    by (simp add: randomIndex_def)
  have z: "randomIndex (1/4) (imageUrls (getSettings (initial (Some ab7)))) = 0"
    "randomIndex (1/8) (imageUrls (getSettings (initial (Some ab7)))) = 0"
    unfolding g u by (simp_all add: randomIndex_examples)
  have z': "\<forall>r'\<in>set [0, 1/8]. randomIndex r' (imageUrls (getSettings (initial (Some ab7)))) = 0"
    unfolding g u by (simp add: randomIndex_examples randomIndex_zero)
  from displayed_url_follows_draw [of "3/4" abc "initial None"]
  have p1: "images (showRandomImage (3/4) abc (initial None)) = [Some ''c'']"
    unfolding f n by (simp add: randomIndex_examples) (simp add: abc_def arrayIndex_def)
  from displayed_url_follows_draw [of "6004799503160661 / 2 ^ 54" abc "initial None"]
  have "images (showRandomImage (6004799503160661 / 2 ^ 54) abc (initial None)) =
      images (initial None) @ [arrayIndex abc (randomIndex (6004799503160661 / 2 ^ 54) abc)]"
    unfolding f by (rule conjunct1)
  then have p2: "images (showRandomImage (6004799503160661 / 2 ^ 54) abc (initial None)) =
      [Some ''b'']"
    unfolding n randomIndex_third(3) by (simp only: append_Nil)
  from a b c displayed_url_follows_draw [of "3/4" _ "initial (Some ab7)" "[1/4, 1/2, 0]"]
  have "images (run ((Receive StartCycle, 3/4) # map (\<lambda>r'. (Fire 0, r')) [1/4, 1/2, 0])
          (initial (Some ab7))) =
        map (\<lambda>d. arrayIndex [''a'', ''b''] (randomIndex d [''a'', ''b''])) [3/4, 1/4, 1/2, 0]"
    unfolding f g n u by simp
  then have p3: "images (run [(Receive StartCycle, 3/4), (Fire 0, 1/4), (Fire 0, 1/2), (Fire 0, 0)]
        (initial (Some ab7))) = [Some ''b'', Some ''a'', Some ''b'', Some ''a'']"
    by (simp add: randomIndex_examples randomIndex_zero arrayIndex_def)
  from a b c z(1) z' displayed_url_follows_draw [of "1/4" _ "initial (Some ab7)" "[0, 1/8]"]
  have "images (run ((Receive StartCycle, 1/4) # map (\<lambda>r'. (Fire 0, r')) [0, 1/8])
          (initial (Some ab7))) = replicate (Suc (length [0::real, 1/8])) (Some ([''a'', ''b''] ! 0))"
    unfolding f g n u by (simp add: arrayIndex_def)
  then have p4: "images (run [(Receive StartCycle, 1/4), (Fire 0, 0), (Fire 0, 1/8)]
        (initial (Some ab7))) = [Some ''a'', Some ''a'', Some ''a'']"
    by simp
  from a b c z p1 p2 p3 p4 show ?thesis by blast
qed

subsection \<open>The index is an index of the list\<close>

lemma nonEmptyLists_step: "nonEmptyLists s \<Longrightarrow> nonEmptyLists (step i s)"
proof -
  assume a: "nonEmptyLists s"
  obtain k r where i: "i = (k, r)" by (cases i)
  show ?thesis
  proof (cases k)
    case Activate
    with a i show ?thesis
      by (simp add: nonEmptyLists_def activate_def updateSettings_def emit_def Let_def
            split: option.splits)
  next
    case OpenSettings
    with a i show ?thesis
      by (simp add: nonEmptyLists_def openSettings_def emit_def)
  next
    case (Receive m)
    with a i show ?thesis
      by (cases m)
         (auto simp: nonEmptyLists_def updateSettings_def startImageCycle_def
            stopImageCycle_def setInterval_def clearInterval_def showRandomImage_def emit_def
            Let_def split: option.splits)
  next
    case (Fire h)
    with a i show ?thesis
      by (simp add: nonEmptyLists_def fire_def showRandomImage_def emit_def
            split: option.splits)
  next
    case Deactivate
    with a i show ?thesis
      by (simp add: nonEmptyLists_def deactivate_def clearInterval_def emit_def
            split: option.splits)
  qed
qed

lemma nonEmptyLists_run: "nonEmptyLists s \<Longrightarrow> nonEmptyLists (run ins s)"
  unfolding run_def by (induction ins arbitrary: s) (simp_all add: nonEmptyLists_step)

lemma nonEmptyLists_initial: "nonEmptyLists (initial stored)"
  by (simp add: nonEmptyLists_def initial_def)

lemma wellStarted_showRandomImage:
  assumes "jsDraw r" and "urls \<noteq> []" and "jsArray urls" and "wellStarted s"
  shows "wellStarted (showRandomImage r urls s)"
proof -
  from arrayIndex_randomIndex [OF assms(1-3)]
  have "None \<notin> set (images (showRandomImage r urls s))"
    using assms(4) by (auto simp: images_showRandomImage wellStarted_def)
  with assms(4) show ?thesis
    by (simp add: wellStarted_def nonEmptyLists_def showRandomImage_def emit_def)
qed

lemma wellStarted_emit_message: "wellStarted s \<Longrightarrow> wellStarted (emit (ShowMessage v m) s)"
  by (simp add: wellStarted_def nonEmptyLists_def images_emit) (simp add: emit_def)

lemma jsArray_getSettings:
  assumes "wellStarted s"
  shows "jsArray (imageUrls (getSettings s))"
proof (cases "globalState s")
  case None
  then show ?thesis
    by (simp add: getSettings_def defaultSettings_def defaultImages_def jsArray_def)
next
  case (Some v)
  with assms show ?thesis
    by (simp add: getSettings_def wellStarted_def)
qed

lemma wellStarted_startImageCycle:
  assumes "jsDraw r" and "wellStarted s"
  shows "wellStarted (startImageCycle r s)"
proof (cases "imageUrls (getSettings s) = [] \<or> intervalId s \<noteq> None")
  case True
  then show ?thesis
    using assms(2) by (auto simp: startImageCycle_def wellStarted_emit_message Let_def)
next
  case False
  let ?urls = "imageUrls (getSettings s)"
  let ?s2 = "(snd (setInterval ?urls (intervalMinutes (getSettings s) * 60 * 1000) s))
               \<lparr>intervalId := Some (nextHandle s)\<rparr>"
  have e: "startImageCycle r s =
      emit (ShowMessage InformationMessage ''Started image cycle'') (showRandomImage r ?urls ?s2)"
    using False by (simp add: startImageCycle_def setInterval_def Let_def)
  have j: "jsArray ?urls"
    using assms(2) by (rule jsArray_getSettings)
  have "wellStarted ?s2"
    using assms(2) False j
    by (simp add: wellStarted_def nonEmptyLists_def setInterval_def images_def emit_def)
  then have "wellStarted (showRandomImage r ?urls ?s2)"
    using assms(1) False j by (simp add: wellStarted_showRandomImage)
  then show ?thesis
    unfolding e by (rule wellStarted_emit_message)
qed

lemma wellStarted_clearInterval: "wellStarted s \<Longrightarrow> wellStarted (clearInterval h s)"
  by (simp add: wellStarted_def nonEmptyLists_def clearInterval_def images_def emit_def)

lemma wellStarted_stopImageCycle: "wellStarted s \<Longrightarrow> wellStarted (stopImageCycle s)"
proof (cases "intervalId s")
  case None
  assume "wellStarted s"
  then show ?thesis using None
    by (simp add: stopImageCycle_def wellStarted_emit_message)
next
  case (Some h)
  assume "wellStarted s"
  then have "wellStarted (clearInterval h s)"
    by (rule wellStarted_clearInterval)
  then have "wellStarted ((clearInterval h s)\<lparr>intervalId := None\<rparr>)"
    by (simp add: wellStarted_def nonEmptyLists_def images_def)
  then show ?thesis using Some
    by (simp add: stopImageCycle_def wellStarted_emit_message)
qed

lemma wellStarted_fire:
  assumes "jsDraw r" and "wellStarted s"
  shows "wellStarted (fire h r s)"
proof (cases "map_of (timers s) h")
  case None
  then show ?thesis using assms(2) by (simp add: fire_def)
next
  case (Some t)
  then have "(h, t) \<in> set (timers s)"
    by (rule map_of_SomeD)
  then have "callbackUrls t \<noteq> []" "jsArray (callbackUrls t)"
    using assms(2) by (auto simp: wellStarted_def nonEmptyLists_def)
  then show ?thesis
    using Some assms by (simp add: fire_def wellStarted_showRandomImage)
qed

lemma wellStarted_step:
  assumes "jsDraw (snd i)" and "jsInput (fst i)" and "wellStarted s"
  shows "wellStarted (step i s)"
proof -
  obtain k r where i: "i = (k, r)" by (cases i)
  show ?thesis
  proof (cases k)
    case Activate
    with assms(3) i show ?thesis
      by (simp add: wellStarted_def nonEmptyLists_def activate_def updateSettings_def images_def
            emit_def Let_def jsArray_def defaultImages_def split: option.splits)
  next
    case OpenSettings
    with assms(3) i show ?thesis
      by (simp add: wellStarted_def nonEmptyLists_def openSettings_def images_def emit_def)
  next
    case (Receive m)
    show ?thesis
    proof (cases m)
      case (SaveSettings v)
      with assms(2,3) i Receive show ?thesis
        by (simp add: wellStarted_def nonEmptyLists_def updateSettings_def images_def emit_def)
    next
      case StartCycle
      with assms i Receive show ?thesis
        by (simp add: wellStarted_startImageCycle)
    next
      case StopCycle
      with assms i Receive show ?thesis
        by (simp add: wellStarted_stopImageCycle)
    next
      case (OtherCommand c)
      with assms i Receive show ?thesis by simp
    qed
  next
    case (Fire h)
    with assms i show ?thesis by (simp add: wellStarted_fire)
  next
    case Deactivate
    with assms(3) i show ?thesis
      by (simp add: deactivate_def wellStarted_clearInterval split: option.splits)
  qed
qed

lemma wellStarted_run:
  "wellStarted s \<Longrightarrow> \<forall>i\<in>set ins. jsDraw (snd i) \<and> jsInput (fst i) \<Longrightarrow>
     wellStarted (run ins s)"
  unfolding run_def by (induction ins arbitrary: s) (simp_all add: wellStarted_step)

lemma wellStarted_initial:
  "\<forall>v. stored = Some v \<longrightarrow> jsArray (imageUrls v) \<Longrightarrow> wellStarted (initial stored)"
  by (simp add: wellStarted_def nonEmptyLists_def initial_def images_def)

lemma nearest64_one: "nearest64 (1/2 * real (length [''a'', ''b''])) 1"
proof -
  have "binary64 1"
    unfolding binary64_def by (rule exI [of _ 1], rule exI [of _ 0]) simp
  then show ?thesis
    by (simp add: nearest64_def)
qed

text \<open>
  Claim C9. For a non-empty list and a draw \<open>0 \<le> r < 1\<close>, the index lies in
  \<open>[0, length)\<close> and the array read yields an element of the list. The theorem says so
  three times: for the floor of the exact product and any real \<open>r\<close> (part 1); for the index
  \<open>randomIndex\<close> the code computes, with the draw a binary64 value and the length below
  \<open>2^53\<close> (part 2); and for the floor of any representable value nearest to the exact
  product, whatever the tie rule (part 5). \<open>startImageCycle\<close> passes on non-empty lists
  only: in every run from the initial state, every running timer closes over a non-empty
  list (part 3), and when the draws are what \<open>Math.random()\<close> returns and the lists stored
  or saved are arrays, no panel ever renders \<open>undefined\<close> (part 4).
\<close>

theorem randomIndex_in_range:
  "(0 \<le> r \<and> r < 1 \<and> urls \<noteq> [] \<longrightarrow>
      0 \<le> \<lfloor>r * real (length urls)\<rfloor> \<and> \<lfloor>r * real (length urls)\<rfloor> < int (length urls)
      \<and> (\<exists>u\<in>set urls. arrayIndex urls \<lfloor>r * real (length urls)\<rfloor> = Some u))
   \<and> (binary64 r \<and> 0 \<le> r \<and> r < 1 \<and> urls \<noteq> [] \<and> length urls < 2 ^ 53 \<longrightarrow>
      0 \<le> randomIndex r urls \<and> randomIndex r urls < int (length urls)
      \<and> (\<exists>u\<in>set urls. arrayIndex urls (randomIndex r urls) = Some u))
   \<and> (\<forall>e\<in>set (timers (run ins (initial stored))). callbackUrls (snd e) \<noteq> [])
   \<and> ((\<forall>i\<in>set ins. jsDraw (snd i) \<and> jsInput (fst i))
        \<and> (\<forall>v. stored = Some v \<longrightarrow> jsArray (imageUrls v)) \<longrightarrow>
      None \<notin> set (images (run ins (initial stored))))
   \<and> (binary64 r \<and> 0 \<le> r \<and> r < 1 \<and> urls \<noteq> [] \<and> length urls < 2 ^ 53
        \<and> nearest64 (r * real (length urls)) p \<longrightarrow>
      0 \<le> \<lfloor>p\<rfloor> \<and> \<lfloor>p\<rfloor> < int (length urls)
      \<and> (\<exists>u\<in>set urls. arrayIndex urls \<lfloor>p\<rfloor> = Some u))"
proof -
  have p1: "0 \<le> \<lfloor>r * real (length urls)\<rfloor> \<and> \<lfloor>r * real (length urls)\<rfloor> < int (length urls)
      \<and> (\<exists>u\<in>set urls. arrayIndex urls \<lfloor>r * real (length urls)\<rfloor> = Some u)"
    if a: "0 \<le> r" "r < 1" "urls \<noteq> []"
    using floor_product_bounds [OF a] arrayIndex_in_range [OF floor_product_bounds [OF a]]
    by blast
  have p2: "0 \<le> randomIndex r urls \<and> randomIndex r urls < int (length urls)
      \<and> (\<exists>u\<in>set urls. arrayIndex urls (randomIndex r urls) = Some u)"
    if a: "binary64 r" "0 \<le> r" "r < 1" "urls \<noteq> []" "length urls < 2 ^ 53"
  proof -
    from a(1-3) have "jsDraw r"
      by (simp add: jsDraw_def)
    note b = randomIndex_bounds [OF this a(4,5)]
    from b arrayIndex_in_range [OF b] show ?thesis
      by blast
  qed
  have "nonEmptyLists (run ins (initial stored))"
    using nonEmptyLists_initial by (rule nonEmptyLists_run)
  then have p3: "\<forall>e\<in>set (timers (run ins (initial stored))). callbackUrls (snd e) \<noteq> []"
    by (simp add: nonEmptyLists_def)
  have p4: "None \<notin> set (images (run ins (initial stored)))"
    if a: "\<forall>i\<in>set ins. jsDraw (snd i) \<and> jsInput (fst i)"
      "\<forall>v. stored = Some v \<longrightarrow> jsArray (imageUrls v)"
  proof -
    have "wellStarted (run ins (initial stored))"
      using wellStarted_initial [OF a(2)] a(1) by (rule wellStarted_run)
    then show ?thesis
      by (simp add: wellStarted_def)
  qed
  have p5: "0 \<le> \<lfloor>p\<rfloor> \<and> \<lfloor>p\<rfloor> < int (length urls)
      \<and> (\<exists>u\<in>set urls. arrayIndex urls \<lfloor>p\<rfloor> = Some u)"
    if a: "binary64 r" "0 \<le> r" "r < 1" "urls \<noteq> []" "length urls < 2 ^ 53"
      "nearest64 (r * real (length urls)) p"
  proof -
    from a(4) have "0 < length urls" by simp
    from rounded_product_in_range [OF a(1-3) this a(5,6)]
    have b: "0 \<le> \<lfloor>p\<rfloor>" "\<lfloor>p\<rfloor> < int (length urls)"
      by blast+
    from b arrayIndex_in_range [OF b] show ?thesis
      by blast
  qed
  from p1 p2 p3 p4 p5 show ?thesis
    by blast
qed

theorem randomIndex_in_range_witness:
  "(0::real) \<le> 7/8 \<and> (7/8::real) < 1 \<and> defaultImages \<noteq> [] \<and> binary64 (7/8)
   \<and> length defaultImages < 2 ^ 53
   \<and> \<lfloor>(7/8::real) * real (length defaultImages)\<rfloor> = 5
   \<and> randomIndex (7/8) defaultImages = 5
   \<and> arrayIndex defaultImages (randomIndex (7/8) defaultImages) =
       Some ''https://i.imgur.com/O4u6CXU.png''
   \<and> None \<notin> set (images (run mixedRun (initial None)))
   \<and> binary64 (1/2) \<and> nearest64 (1/2 * real (length [''a'', ''b''])) 1
   \<and> arrayIndex [''a'', ''b''] \<lfloor>1::real\<rfloor> = Some ''b''"
proof -
  have a: "(0::real) \<le> 7/8" "(7/8::real) < 1" "defaultImages \<noteq> []"
    "length defaultImages < 2 ^ 53"
    by (simp_all add: defaultImages_def)
  have h: "binary64 (7/8)" "binary64 (1/2)"
    using jsDraw_examples by (simp_all add: jsDraw_def)
  have b: "\<forall>i\<in>set mixedRun. jsDraw (snd i) \<and> jsInput (fst i)"
    by (simp add: mixedRun_def jsDraw_examples jsArray_def)
  have b': "\<forall>v. (None :: Settings option) = Some v \<longrightarrow> jsArray (imageUrls v)"
    by simp
  have c: "\<lfloor>(7/8::real) * real (length defaultImages)\<rfloor> = 5"
    by (simp add: defaultImages_def)
  have c': "randomIndex (7/8) defaultImages = 5"
    by (simp add: randomIndex_examples)
  have d: "arrayIndex defaultImages 5 = Some ''https://i.imgur.com/O4u6CXU.png''"
    by (simp add: arrayIndex_def defaultImages_def)
  note t = randomIndex_in_range [of "7/8" defaultImages mixedRun None]
  from a h(1) t have e1: "\<exists>u\<in>set defaultImages. arrayIndex defaultImages (randomIndex (7/8) defaultImages) = Some u"
    by blast
  from b b' t have e: "None \<notin> set (images (run mixedRun (initial None)))"
    by blast
  have f: "[''a'', ''b''] \<noteq> []" "length [''a'', ''b''] < 2 ^ 53" "(0::real) \<le> 1/2" "(1/2::real) < 1"
    by simp_all
  from f h(2) nearest64_one randomIndex_in_range [of "1/2" "[''a'', ''b'']" _ _ 1]
  have "\<exists>u\<in>set [''a'', ''b'']. arrayIndex [''a'', ''b''] \<lfloor>1::real\<rfloor> = Some u"
    by blast
  then have g: "arrayIndex [''a'', ''b''] \<lfloor>1::real\<rfloor> = Some ''b''"
    by (auto simp: arrayIndex_def)
  from a c c' d e g h nearest64_one show ?thesis by simp
qed

section \<open>Saving while a cycle runs\<close>

lemma saveSettings_frame:
  "onDidReceiveMessage (SaveSettings v) r s =
     s\<lparr>globalState := Some v,
       calls := calls s @ [GlobalStateUpdate v,
                           ShowMessage InformationMessage ''Settings saved successfully'']\<rparr>"
  by (simp add: updateSettings_def emit_def)

text \<open>
  Claim C10. Handling \<open>saveSettings\<close> replaces the stored value and changes neither the
  handle nor any running timer, and a timer that fires after the save displays what it
  would have displayed before it. So a cycle started on settings \<open>s\<close> keeps the list and the
  delay of \<open>s\<close> after the store has been replaced by \<open>v\<close>: its timer still closes over
  \<open>imageUrls\<close> of \<open>s\<close> with the delay computed from \<open>intervalMinutes\<close> of \<open>s\<close>, and its
  ticks index that list. Only stopping and starting again brings in \<open>v\<close>.
\<close>

theorem saveSettings_keeps_running_cycle:
  "globalState (onDidReceiveMessage (SaveSettings v) r s) = Some v
   \<and> timers (onDidReceiveMessage (SaveSettings v) r s) = timers s
   \<and> intervalId (onDidReceiveMessage (SaveSettings v) r s) = intervalId s
   \<and> nextHandle (onDidReceiveMessage (SaveSettings v) r s) = nextHandle s
   \<and> newCalls (onDidReceiveMessage (SaveSettings v) r s)
        (fire h r' (onDidReceiveMessage (SaveSettings v) r s)) = newCalls s (fire h r' s)
   \<and> (imageUrls (getSettings s) \<noteq> [] \<and> intervalId s = None \<and> oneTimer s \<longrightarrow>
        timers (onDidReceiveMessage (SaveSettings v) r (startImageCycle r0 s)) =
          [(nextHandle s, \<lparr>callbackUrls = imageUrls (getSettings s),
                           delay = intervalMinutes (getSettings s) * 60 * 1000\<rparr>)]
        \<and> newCalls (onDidReceiveMessage (SaveSettings v) r (startImageCycle r0 s))
             (fire (nextHandle s) r' (onDidReceiveMessage (SaveSettings v) r (startImageCycle r0 s))) =
          [CreateWebviewPanel ''imageViewer'' ''Full Screen Image''
             (FullScreenImage
               (arrayIndex (imageUrls (getSettings s))
                  (randomIndex r' (imageUrls (getSettings s)))))]
        \<and> (imageUrls v \<noteq> [] \<longrightarrow>
             timers (startImageCycle r1
                      (stopImageCycle (onDidReceiveMessage (SaveSettings v) r (startImageCycle r0 s)))) =
               [(Suc (nextHandle s), \<lparr>callbackUrls = imageUrls v,
                                       delay = intervalMinutes v * 60 * 1000\<rparr>)]))"
proof -
  let ?save = "onDidReceiveMessage (SaveSettings v) r"
  have f: "newCalls (?save s) (fire h r' (?save s)) = newCalls s (fire h r' s)"
    by (cases "map_of (timers s) h")
       (simp_all add: updateSettings_def fire_def showRandomImage_def emit_def newCalls_def)
  have g: "timers (?save (startImageCycle r0 s)) =
          [(nextHandle s, \<lparr>callbackUrls = imageUrls (getSettings s),
                           delay = intervalMinutes (getSettings s) * 60 * 1000\<rparr>)]"
    and k: "newCalls (?save (startImageCycle r0 s))
             (fire (nextHandle s) r' (?save (startImageCycle r0 s))) =
          [CreateWebviewPanel ''imageViewer'' ''Full Screen Image''
             (FullScreenImage
               (arrayIndex (imageUrls (getSettings s))
                  (randomIndex r' (imageUrls (getSettings s)))))]"
    and n: "imageUrls v \<noteq> [] \<Longrightarrow>
             timers (startImageCycle r1 (stopImageCycle (?save (startImageCycle r0 s)))) =
               [(Suc (nextHandle s), \<lparr>callbackUrls = imageUrls v,
                                       delay = intervalMinutes v * 60 * 1000\<rparr>)]"
    if a: "imageUrls (getSettings s) \<noteq> []" "intervalId s = None" "oneTimer s"
  proof -
    let ?t = "\<lparr>callbackUrls = imageUrls (getSettings s),
               delay = intervalMinutes (getSettings s) * 60 * 1000\<rparr>"
    let ?s1 = "startImageCycle r0 s"
    have e: "timers s = []"
      using a(2,3) by (rule oneTimer_None [rotated])
    note st = startImageCycle_fresh [OF a(1,2), of r0]
    have t1: "timers ?s1 = [(nextHandle s, ?t)]" "intervalId ?s1 = Some (nextHandle s)"
      "nextHandle ?s1 = Suc (nextHandle s)"
      unfolding st by (simp_all add: e)
    show g: "timers (?save ?s1) = [(nextHandle s, ?t)]"
      by (simp add: updateSettings_def emit_def t1)
    have m: "map_of (timers (?save ?s1)) (nextHandle s) = Some ?t"
      unfolding g by simp
    show "newCalls (?save ?s1) (fire (nextHandle s) r' (?save ?s1)) =
          [CreateWebviewPanel ''imageViewer'' ''Full Screen Image''
             (FullScreenImage
               (arrayIndex (imageUrls (getSettings s))
                  (randomIndex r' (imageUrls (getSettings s)))))]"
      unfolding fire_running [OF m] by (simp add: newCalls_def)
    let ?s3 = "stopImageCycle (?save ?s1)"
    have s3: "timers ?s3 = []" "intervalId ?s3 = None" "nextHandle ?s3 = Suc (nextHandle s)"
      "getSettings ?s3 = v"
      unfolding saveSettings_frame
      by (simp_all add: stopImageCycle_def clearInterval_def emit_def t1 getSettings_def)
    show "timers (startImageCycle r1 ?s3) =
               [(Suc (nextHandle s), \<lparr>callbackUrls = imageUrls v,
                                       delay = intervalMinutes v * 60 * 1000\<rparr>)]"
      if "imageUrls v \<noteq> []"
    proof -
      have "imageUrls (getSettings ?s3) \<noteq> []"
        using that unfolding s3 .
      from startImageCycle_fresh [OF this s3(2), of r1] show ?thesis
        unfolding s3 by simp
    qed
  qed
  from f g k n show ?thesis
    by (simp add: updateSettings_def emit_def del: onDidReceiveMessage.simps)
       (simp add: updateSettings_def emit_def)
qed

theorem saveSettings_keeps_running_cycle_witness:
  "imageUrls (getSettings (initial (Some ab7))) \<noteq> []
   \<and> intervalId (initial (Some ab7)) = None
   \<and> oneTimer (initial (Some ab7))
   \<and> imageUrls cd1 \<noteq> []
   \<and> globalState (onDidReceiveMessage (SaveSettings cd1) 0 running) = Some cd1
   \<and> timers (onDidReceiveMessage (SaveSettings cd1) 0 running) =
       [(0, \<lparr>callbackUrls = [''a'', ''b''], delay = 420000\<rparr>)]
   \<and> newCalls (onDidReceiveMessage (SaveSettings cd1) 0 running)
        (fire 0 (3/4) (onDidReceiveMessage (SaveSettings cd1) 0 running)) =
       [CreateWebviewPanel ''imageViewer'' ''Full Screen Image'' (FullScreenImage (Some ''b''))]
   \<and> timers (startImageCycle (1/2)
        (stopImageCycle (onDidReceiveMessage (SaveSettings cd1) 0 running))) =
       [(1, \<lparr>callbackUrls = [''c'', ''d'', ''e''], delay = 60000\<rparr>)]"
proof -
  have g: "getSettings (initial (Some ab7)) = ab7"
    by (simp add: getSettings_def initial_def)
  have a: "imageUrls (getSettings (initial (Some ab7))) \<noteq> []"
    unfolding g by (simp add: ab7_def)
  have b: "intervalId (initial (Some ab7)) = None"
    by (simp add: initial_def)
  have c: "oneTimer (initial (Some ab7))"
    by (simp add: initial_def oneTimer_def)
  have d: "imageUrls cd1 \<noteq> []"
    by (simp add: cd1_def)
  have n: "nextHandle (initial (Some ab7)) = 0"
    by (simp add: initial_def)
  have r: "startImageCycle (1/2) (initial (Some ab7)) = running"
    by (simp add: running_def ab7_def)
  let ?s2 = "onDidReceiveMessage (SaveSettings cd1) 0 running"
  have e: "globalState ?s2 = Some cd1"
    using saveSettings_keeps_running_cycle [of cd1 0 running] by blast
  note t = saveSettings_keeps_running_cycle
             [of cd1 0 "initial (Some ab7)" 0 "3/4" "1/2" "1/2", unfolded g n r]
  have a': "imageUrls ab7 \<noteq> []"
    by (simp add: ab7_def)
  from a' b c t have t1: "timers ?s2 =
      [(0, \<lparr>callbackUrls = imageUrls ab7, delay = intervalMinutes ab7 * 60 * 1000\<rparr>)]"
    by blast
  from a' b c t have t2: "newCalls ?s2 (fire 0 (3/4) ?s2) =
      [CreateWebviewPanel ''imageViewer'' ''Full Screen Image''
         (FullScreenImage (arrayIndex (imageUrls ab7) (randomIndex (3/4) (imageUrls ab7))))]"
    by blast
  from a' b c d t have t3: "timers (startImageCycle (1/2) (stopImageCycle ?s2)) =
      [(Suc 0, \<lparr>callbackUrls = imageUrls cd1, delay = intervalMinutes cd1 * 60 * 1000\<rparr>)]"
    by blast
  have y: "imageUrls ab7 = [''a'', ''b'']" "intervalMinutes ab7 * 60 * 1000 = 420000"
    "imageUrls cd1 = [''c'', ''d'', ''e'']" "intervalMinutes cd1 * 60 * 1000 = 60000"
    by (simp_all add: ab7_def cd1_def)
  from a b c d e t1 t2 t3 show ?thesis
    unfolding y by (simp add: arrayIndex_def randomIndex_examples)
qed

end
